theory Spec2Isabelle
  imports Main "HOL-Library.Sublist"
begin

section \<open>Python strings\<close>

text \<open>
  Text is modelled as \<^typ>\<open>string\<close>, a list of 8-bit characters, read as the code
  points below 256 (ASCII and the Latin-1 supplement): the character classes below
  (\<open>isspace\<close>, \<open>is_word_char\<close>, \<open>isalnum\<close>, \<open>lower\<close>) are Python's on these code
  points.  Python's \<^verbatim>\<open>x in s\<close> on strings is \<^term>\<open>sublist x s\<close>,
  \<^verbatim>\<open>s.startswith(x)\<close> is \<^term>\<open>prefix x s\<close> and \<^verbatim>\<open>s.endswith(x)\<close> is
  \<^term>\<open>suffix x s\<close>.
\<close>

definition ascii_uppercase :: string where
  "ascii_uppercase = ''ABCDEFGHIJKLMNOPQRSTUVWXYZ''"

definition ascii_lowercase :: string where
  "ascii_lowercase = ''abcdefghijklmnopqrstuvwxyz''"

definition digits :: string where
  "digits = ''0123456789''"

text \<open>
  The letters of the Latin-1 supplement that have a lower case, \<open>0xC0\<close> to \<open>0xDE\<close>
  without the multiplication sign \<open>0xD7\<close>, and their lower cases, \<open>0x20\<close> further;
  and the other characters of the supplement that are alphanumeric for Python: the
  ordinal indicators, the micro sign, the superscript digits, the fractions, the sharp s
  and the y with diaeresis.
\<close>

definition latin1_uppercase :: string where
  "latin1_uppercase =
     [CHR 0xC0, CHR 0xC1, CHR 0xC2, CHR 0xC3, CHR 0xC4, CHR 0xC5, CHR 0xC6,
      CHR 0xC7, CHR 0xC8, CHR 0xC9, CHR 0xCA, CHR 0xCB, CHR 0xCC, CHR 0xCD,
      CHR 0xCE, CHR 0xCF, CHR 0xD0, CHR 0xD1, CHR 0xD2, CHR 0xD3, CHR 0xD4,
      CHR 0xD5, CHR 0xD6, CHR 0xD8, CHR 0xD9, CHR 0xDA, CHR 0xDB, CHR 0xDC,
      CHR 0xDD, CHR 0xDE]"

definition latin1_lowercase :: string where
  "latin1_lowercase =
     [CHR 0xE0, CHR 0xE1, CHR 0xE2, CHR 0xE3, CHR 0xE4, CHR 0xE5, CHR 0xE6,
      CHR 0xE7, CHR 0xE8, CHR 0xE9, CHR 0xEA, CHR 0xEB, CHR 0xEC, CHR 0xED,
      CHR 0xEE, CHR 0xEF, CHR 0xF0, CHR 0xF1, CHR 0xF2, CHR 0xF3, CHR 0xF4,
      CHR 0xF5, CHR 0xF6, CHR 0xF8, CHR 0xF9, CHR 0xFA, CHR 0xFB, CHR 0xFC,
      CHR 0xFD, CHR 0xFE]"

definition latin1_other_alnum :: string where
  "latin1_other_alnum =
     [CHR 0xAA, CHR 0xB2, CHR 0xB3, CHR 0xB5, CHR 0xB9, CHR 0xBA, CHR 0xBC,
      CHR 0xBD, CHR 0xBE, CHR 0xDF, CHR 0xFF]"

definition lower_char :: "char \<Rightarrow> char" where
  "lower_char c =
     (case map_of (zip (ascii_uppercase @ latin1_uppercase) (ascii_lowercase @ latin1_lowercase)) c
      of Some d \<Rightarrow> d | None \<Rightarrow> c)"

text \<open>\<^verbatim>\<open>s.lower()\<close>\<close>

definition lower :: "string \<Rightarrow> string" where
  "lower s = map lower_char s"

text \<open>\<^verbatim>\<open>sep.join(xs)\<close>\<close>

fun join :: "string \<Rightarrow> string list \<Rightarrow> string" where
  "join sep [] = []"
| "join sep [x] = x"
| "join sep (x # y # ys) = x @ sep @ join sep (y # ys)"

section \<open>Category Refiner: \<open>ContentProcessor._enhance_category\<close>\<close>

text \<open>
  \<^verbatim>\<open>keyword_str = ' '.join(keywords).lower()\<close>, followed by an \<^verbatim>\<open>if/elif\<close> chain of
  substring tests.  \<open>enhance_category\<close> is the chain of \<^verbatim>\<open>processor.py\<close>,
  \<open>enhance_category_llm\<close> the longer chain of \<^verbatim>\<open>processor_llm.py\<close>.
\<close>

definition keyword_str :: "string list \<Rightarrow> string" where
  "keyword_str keywords = lower (join '' '' keywords)"

definition enhance_category :: "string \<Rightarrow> string list \<Rightarrow> string" where
  "enhance_category base_category keywords =
     (let ks = keyword_str keywords in
      if sublist ''electric'' ks \<or> sublist ''vehicle'' ks \<or> sublist ''battery'' ks
        then ''e-mobility''
      else if sublist ''manufactur'' ks \<or> sublist ''supply'' ks \<or> sublist ''automation'' ks
        then ''manufacturing''
      else if sublist ''government'' ks \<or> sublist ''policy'' ks \<or> sublist ''regulation'' ks
        then ''politics-governance''
      else base_category)"

definition enhance_category_llm :: "string \<Rightarrow> string list \<Rightarrow> string" where
  "enhance_category_llm base_category keywords =
     (let ks = keyword_str keywords in
      if sublist ''electric'' ks \<or> sublist ''vehicle'' ks \<or> sublist ''battery'' ks
        then ''e-mobility''
      else if sublist ''manufactur'' ks \<or> sublist ''supply'' ks \<or> sublist ''automation'' ks
        then ''manufacturing''
      else if sublist ''government'' ks \<or> sublist ''policy'' ks \<or> sublist ''regulation'' ks
        then ''politics-governance''
      else if sublist ''startup'' ks \<or> sublist ''entrepreneur'' ks \<or> sublist ''funding'' ks
        then ''startup & innovation''
      else if sublist ''ai'' ks \<or> sublist ''artificial'' ks \<or> sublist ''intelligence'' ks
        then ''ai & ml''
      else base_category)"

text \<open>The indicator terms each chain tests, in the order of the tests.\<close>

definition indicator_terms :: "string list" where
  "indicator_terms =
     [''electric'', ''vehicle'', ''battery'',
      ''manufactur'', ''supply'', ''automation'',
      ''government'', ''policy'', ''regulation'']"

definition indicator_terms_llm :: "string list" where
  "indicator_terms_llm =
     indicator_terms @
     [''startup'', ''entrepreneur'', ''funding'', ''ai'', ''artificial'', ''intelligence'']"

section \<open>Coherence Filter: \<open>WebScraper._grammar_and_coherence_filter\<close>\<close>

text \<open>
  The NLTK functions are parameters of the model.  A call of one of them either returns
  or raises; a raise is the value \<open>Inl e\<close>.
\<close>

datatype error = KeyError string | IndexError | TypeError | AttributeError | LibraryError

type_synonym sent_tokenizer = "string \<Rightarrow> error + string list"
type_synonym word_tokenizer = "string \<Rightarrow> error + string list"
type_synonym pos_tagger = "string list \<Rightarrow> error + (string \<times> string) list"

text \<open>\<^verbatim>\<open>c.isspace()\<close>, which is also the class \<^verbatim>\<open>\s\<close>: tab, line feed,
  vertical tab, form feed, carriage return, the four separators \<open>0x1C\<close> to \<open>0x1F\<close>,
  space, next line \<open>0x85\<close> and no-break space \<open>0xA0\<close>.\<close>

definition whitespace_chars :: string where
  "whitespace_chars =
     [CHR 0x09, CHR 0x0A, CHR 0x0B, CHR 0x0C, CHR 0x0D,
      CHR 0x1C, CHR 0x1D, CHR 0x1E, CHR 0x1F, CHR '' '', CHR 0x85, CHR 0xA0]"

definition isspace :: "char \<Rightarrow> bool" where
  "isspace c = (c \<in> set whitespace_chars)"

text \<open>\<^verbatim>\<open>s.strip()\<close>\<close>

definition strip :: "string \<Rightarrow> string" where
  "strip s = rev (dropWhile isspace (rev (dropWhile isspace s)))"

text \<open>\<^verbatim>\<open>s.split(d)\<close> for a separator of one character.\<close>

fun split_on :: "char \<Rightarrow> string \<Rightarrow> string list" where
  "split_on d [] = [[]]"
| "split_on d (c # cs) =
     (if c = d then [] # split_on d cs
      else (case split_on d cs of [] \<Rightarrow> [[c]] | w # ws \<Rightarrow> (c # w) # ws))"

text \<open>
  \<^verbatim>\<open>nltk.pos_tag\<close> returns a list of tuples \<^verbatim>\<open>(word, tag)\<close>.  A tuple has the
  methods \<^verbatim>\<open>count\<close> and \<^verbatim>\<open>index\<close> (and special methods, which no code here
  asks for) and no attribute whose value is a string.
\<close>

definition tuple_hasattr :: "string \<times> string \<Rightarrow> string \<Rightarrow> bool" where
  "tuple_hasattr word name = (name \<in> set [''count'', ''index''])"

definition tuple_getattr :: "string \<times> string \<Rightarrow> string \<Rightarrow> string option" where
  "tuple_getattr word name = None"

text \<open>
  \<^verbatim>\<open>has_noun = any(word.pos_ == 'NOUN' for word in nltk.pos_tag(words) if hasattr(word, 'pos_'))\<close>
  \<^verbatim>\<open>has_verb = any(tag.startswith('VB') for word, tag in nltk.pos_tag(words))\<close>
\<close>

definition is_grammatical_sentence ::
    "word_tokenizer \<Rightarrow> pos_tagger \<Rightarrow> string \<Rightarrow> error + bool" where
  "is_grammatical_sentence word_tokenize pos_tag sentence =
     (if length sentence < 10 then Inr False
      else if length sentence > 500 then Inr False
      else (case word_tokenize (lower sentence) of
              Inl e \<Rightarrow> Inl e
            | Inr words \<Rightarrow>
                if words = [] then Inr False
                else (case pos_tag words of
                        Inl e \<Rightarrow> Inl e
                      | Inr tagged \<Rightarrow>
                          let has_noun =
                                list_ex (\<lambda>word. tuple_getattr word ''pos_'' = Some ''NOUN'')
                                  (filter (\<lambda>word. tuple_hasattr word ''pos_'') tagged);
                              has_verb = list_ex (\<lambda>(word, tag). prefix ''VB'' tag) tagged
                          in Inr (has_noun \<and> has_verb))))"

text \<open>The loop over the sentences; the first raise ends it.\<close>

fun filter_grammatical ::
    "word_tokenizer \<Rightarrow> pos_tagger \<Rightarrow> string list \<Rightarrow> error + string list" where
  "filter_grammatical word_tokenize pos_tag [] = Inr []"
| "filter_grammatical word_tokenize pos_tag (s # ss) =
     (let sentence = strip s in
      case is_grammatical_sentence word_tokenize pos_tag sentence of
        Inl e \<Rightarrow> Inl e
      | Inr ok \<Rightarrow>
          (case filter_grammatical word_tokenize pos_tag ss of
             Inl e \<Rightarrow> Inl e
           | Inr rest \<Rightarrow> Inr (if ok then sentence # rest else rest)))"

text \<open>\<^verbatim>\<open>if content and not content.endswith('.'): content += '.'\<close>\<close>

definition ensure_period :: "string \<Rightarrow> string" where
  "ensure_period content =
     (if content \<noteq> [] \<and> \<not> suffix ''.'' content then content @ ''.'' else content)"

definition grammar_and_coherence_filter ::
    "sent_tokenizer \<Rightarrow> word_tokenizer \<Rightarrow> pos_tagger \<Rightarrow> string \<Rightarrow> error + string" where
  "grammar_and_coherence_filter sent_tokenize word_tokenize pos_tag content =
     (if content = [] then Inr []
      else
        let sentences =
              (case sent_tokenize content of
                 Inr ss \<Rightarrow> ss
               | Inl e \<Rightarrow> split_on CHR ''.'' content)
        in case filter_grammatical word_tokenize pos_tag sentences of
             Inl e \<Rightarrow> Inl e
           | Inr filtered_sentences \<Rightarrow> Inr (ensure_period (join ''. '' filtered_sentences)))"

text \<open>
  The acceptance test as section 4.3 of the specification words it, over the tagged
  tokens of the sentence: the length is between 10 and 500, a token is tagged as a noun
  (a Penn Treebank tag that starts with \<open>NN\<close>) and a token is tagged as a verb (a tag
  that starts with \<open>VB\<close>).
\<close>

definition spec_accepts_sentence :: "(string \<times> string) list \<Rightarrow> string \<Rightarrow> bool" where
  "spec_accepts_sentence tagged sentence =
     (10 \<le> length sentence \<and> length sentence \<le> 500 \<and>
      list_ex (\<lambda>(word, tag). prefix ''NN'' tag) tagged \<and>
      list_ex (\<lambda>(word, tag). prefix ''VB'' tag) tagged)"

section \<open>Sector Scorer: \<open>WebScraper.categorize_content\<close>\<close>

text \<open>
  A content record is a Python dict with string keys; a value is a string, a list of
  strings or something else (\<open>NoneVal\<close> stands for every value that is neither).
\<close>

datatype pyval = Str string | StrList "string list" | NoneVal

type_synonym content_dict = "string \<rightharpoonup> pyval"

text \<open>
  The characters \<^verbatim>\<open>\w\<close> matches: the alphanumeric characters (letters, digits and
  the other alphanumeric characters of the Latin-1 supplement) and the underscore.
  \<^verbatim>\<open>\b\<close> matches between two positions of which exactly one holds a word
  character; before the first and after the last character there is none.
\<close>

definition alnum_chars :: string where
  "alnum_chars =
     ascii_lowercase @ ascii_uppercase @ digits @
     latin1_uppercase @ latin1_lowercase @ latin1_other_alnum"

definition is_word_char :: "char \<Rightarrow> bool" where
  "is_word_char c = (c \<in> set (alnum_chars @ ''_''))"

definition is_word :: "char option \<Rightarrow> bool" where
  "is_word p = (case p of None \<Rightarrow> False | Some c \<Rightarrow> is_word_char c)"

definition word_boundary :: "char option \<Rightarrow> char option \<Rightarrow> bool" where
  "word_boundary before after = (is_word before \<noteq> is_word after)"

definition first_char :: "string \<Rightarrow> char option" where
  "first_char s = (case s of [] \<Rightarrow> None | c # _ \<Rightarrow> Some c)"

text \<open>
  \<^verbatim>\<open>r'\b' + re.escape(keyword) + r'\b'\<close> matches at the start of \<open>text\<close>, where
  \<open>before\<close> is the character in front of \<open>text\<close>: the keyword, read literally, is a
  prefix of \<open>text\<close>, with a word boundary in front of it and one behind it.
\<close>

definition keyword_match_at :: "string \<Rightarrow> char option \<Rightarrow> string \<Rightarrow> bool" where
  "keyword_match_at keyword before text =
     (if keyword \<noteq> [] \<and> prefix keyword text
      then word_boundary before (first_char text) \<and>
           word_boundary (Some (last keyword)) (first_char (drop (length keyword) text))
      else False)"

text \<open>
  \<^verbatim>\<open>len(re.findall(r'\b' + re.escape(keyword) + r'\b', text))\<close>: the scan goes from left
  to right; after a match it goes on behind the match (the matches do not overlap), and
  otherwise one character further.  Every keyword of the program is non-empty.
\<close>

function findall_count :: "string \<Rightarrow> char option \<Rightarrow> string \<Rightarrow> nat" where
  "findall_count keyword before [] = 0"
| "findall_count keyword before (c # cs) =
     (if keyword_match_at keyword before (c # cs)
      then Suc (findall_count keyword (Some (last keyword)) (drop (length keyword) (c # cs)))
      else findall_count keyword (Some c) cs)"
  by pat_completeness auto
termination
  by (relation "measure (\<lambda>(keyword, before, text). length text)")
     (auto simp: keyword_match_at_def split: if_splits)

text \<open>The dict \<^verbatim>\<open>sectors\<close> of \<^verbatim>\<open>categorize_content\<close>, in its order of insertion.\<close>

definition sectors :: "(string \<times> string list) list" where
  "sectors =
     [(''e-mobility'',
        [''electric vehicle'', ''ev'', ''battery'', ''charging station'', ''autonomous driving'',
         ''sustainable mobility'', ''green energy'', ''renewable transport'', ''electric car'',
         ''lithium-ion'', ''vehicle electrification'', ''smart mobility'', ''e-mobility'']),
      (''manufacturing'',
        [''manufacturing'', ''supply chain'', ''automation'', ''industry 4.0'', ''robotics'',
         ''production line'', ''factory automation'', ''industrial iot'', ''smart manufacturing'',
         ''lean manufacturing'', ''quality control'', ''production efficiency'']),
      (''politics-governance'',
        [''government'', ''policy'', ''regulation'', ''election'', ''legislation'', ''parliament'',
         ''political'', ''governance'', ''public sector'', ''democracy'', ''constitution'',
         ''minister'', ''president'', ''law'', ''bill'', ''senate'']),
      (''artificial intelligence & machine learning'',
        [''artificial intelligence'', ''machine learning'', ''deep learning'', ''neural network'',
         ''data science'', ''ai model'', ''computer vision'', ''natural language processing'',
         ''predictive analytics'', ''algorithm'', ''automation ai'']),
      (''startup & innovation'',
        [''startup'', ''innovation'', ''venture capital'', ''tech startup'', ''business model'',
         ''entrepreneurship'', ''funding round'', ''pitch deck'', ''scalability'', ''disruption''])]"

text \<open>The inner loop: the score of one sector is the sum of the counts of its keywords.\<close>

definition sector_score :: "string \<Rightarrow> string list \<Rightarrow> nat" where
  "sector_score full_text keywords =
     sum_list (map (\<lambda>keyword. findall_count keyword None full_text) keywords)"

text \<open>The dict \<^verbatim>\<open>scores\<close>, in the order of \<^verbatim>\<open>sectors\<close>.\<close>

definition sector_scores :: "string \<Rightarrow> (string \<times> nat) list" where
  "sector_scores full_text =
     map (\<lambda>(sector, keywords). (sector, sector_score full_text keywords)) sectors"

text \<open>\<^verbatim>\<open>max(scores.values()) if scores else 0\<close>\<close>

definition max_score_of :: "(string \<times> nat) list \<Rightarrow> nat" where
  "max_score_of scores = (if scores \<noteq> [] then fold max (map snd scores) 0 else 0)"

text \<open>
  The decision after the scoring loop.  \<^verbatim>\<open>top_sectors[0]\<close> raises \<^verbatim>\<open>IndexError\<close>
  on an empty list.
\<close>

definition choose_category :: "(string \<times> nat) list \<Rightarrow> error + string" where
  "choose_category scores =
     (let max_score = max_score_of scores in
      if max_score > 0 then
        (let top_sectors = map fst (filter (\<lambda>(sector, score). score = max_score) scores) in
         if length top_sectors = 1 \<or> max_score \<ge> 2
         then (case top_sectors of [] \<Rightarrow> Inl IndexError | sector # _ \<Rightarrow> Inr sector)
         else Inr ''general'')
      else Inr ''general'')"

text \<open>
  \<^verbatim>\<open>content_dict['content']\<close> raises \<^verbatim>\<open>KeyError\<close> when the key is missing,
  \<^verbatim>\<open>content_dict.get('title', '')\<close> does not; \<^verbatim>\<open>.lower()\<close> raises
  \<^verbatim>\<open>AttributeError\<close> on a value that is not a string.  The text scored is
  \<^verbatim>\<open>content + ' ' + title\<close>, both in lower case.
\<close>

definition categorize_content :: "content_dict \<Rightarrow> error + content_dict" where
  "categorize_content content_dict =
     (case content_dict ''content'' of
        None \<Rightarrow> Inl (KeyError ''content'')
      | Some (Str c) \<Rightarrow>
          (case (case content_dict ''title'' of None \<Rightarrow> Str '''' | Some v \<Rightarrow> v) of
             Str t \<Rightarrow>
               (let content = lower c; title = lower t;
                    full_text = content @ '' '' @ title
                in case choose_category (sector_scores full_text) of
                     Inl e \<Rightarrow> Inl e
                   | Inr category \<Rightarrow> Inr (content_dict(''category'' \<mapsto> Str category)))
           | _ \<Rightarrow> Inl AttributeError)
      | Some _ \<Rightarrow> Inl AttributeError)"

text \<open>
  The Sector Scorer as section 4.4 of the specification words it: the decision is taken
  on the scores of the combined lowercased \<^verbatim>\<open>title + " " + content\<close>.
\<close>

definition spec_categorize :: "string \<Rightarrow> string \<Rightarrow> error + string" where
  "spec_categorize title content =
     choose_category (sector_scores (lower (title @ '' '' @ content)))"

text \<open>
  An occurrence of a keyword in a text that is delimited by word boundaries, said without
  the scan: the keyword lies between a part \<open>u\<close> and a part \<open>v\<close> of the text, no word
  character ends \<open>u\<close> and none begins \<open>v\<close>.
\<close>

definition delimited_occurrence :: "string \<Rightarrow> string \<Rightarrow> bool" where
  "delimited_occurrence keyword text =
     (\<exists>u v. text = u @ keyword @ v \<and>
            (u = [] \<or> \<not> is_word_char (last u)) \<and> (v = [] \<or> \<not> is_word_char (hd v)))"

text \<open>The Sector enumeration of section 3 of the specification.\<close>

definition spec_sector_enumeration :: "string list" where
  "spec_sector_enumeration =
     [''e-mobility'', ''manufacturing'', ''politics-governance'', ''ai-ml'',
      ''startup-innovation'', ''general'']"

text \<open>The category literals of the three functions that set the category.\<close>

definition scorer_categories :: "string list" where
  "scorer_categories =
     [''e-mobility'', ''manufacturing'', ''politics-governance'',
      ''artificial intelligence & machine learning'', ''startup & innovation'', ''general'']"

definition refiner_categories :: "string list" where
  "refiner_categories = [''e-mobility'', ''manufacturing'', ''politics-governance'']"

definition refiner_llm_categories :: "string list" where
  "refiner_llm_categories = refiner_categories @ [''startup & innovation'', ''ai & ml'']"

section \<open>Regular expressions: \<open>re.sub\<close>\<close>

text \<open>
  The patterns of the program use literals, character classes, \<^verbatim>\<open>\b\<close>, grouping,
  alternation and the greedy repetitions \<^verbatim>\<open>?\<close>, \<^verbatim>\<open>+\<close>, \<^verbatim>\<open>{n}\<close> and
  \<^verbatim>\<open>{n,}\<close>.  \<open>Chars cs\<close> matches one character of the list \<open>cs\<close>.
\<close>

datatype regex =
    Chars "char list"
  | WordB
  | Eps
  | Seq regex regex
  | Alt regex regex
  | Star regex

text \<open>A literal string, \<^verbatim>\<open>r?\<close>, \<^verbatim>\<open>r+\<close>, \<^verbatim>\<open>r{n}\<close>, \<^verbatim>\<open>r{n,}\<close> and \<^verbatim>\<open>r1|...|rk\<close>.\<close>

fun lit :: "string \<Rightarrow> regex" where
  "lit [] = Eps"
| "lit [c] = Chars [c]"
| "lit (c # cs) = Seq (Chars [c]) (lit cs)"

definition opt :: "regex \<Rightarrow> regex" where
  "opt r = Alt r Eps"

definition plus1 :: "regex \<Rightarrow> regex" where
  "plus1 r = Seq r (Star r)"

fun rep :: "nat \<Rightarrow> regex \<Rightarrow> regex" where
  "rep 0 r = Eps"
| "rep (Suc 0) r = r"
| "rep (Suc n) r = Seq r (rep n r)"

definition at_least :: "nat \<Rightarrow> regex \<Rightarrow> regex" where
  "at_least n r = Seq (rep n r) (Star r)"

fun alts :: "regex list \<Rightarrow> regex" where
  "alts [] = Eps"
| "alts [r] = r"
| "alts (r # rs) = Alt r (alts rs)"

fun seqs :: "regex list \<Rightarrow> regex" where
  "seqs [] = Eps"
| "seqs [r] = r"
| "seqs (r # rs) = Seq r (seqs rs)"

text \<open>
  A position in the subject is the character in front of it (none at the start) and the
  text from it on.  With \<^verbatim>\<open>re.IGNORECASE\<close> (the flag \<open>ic\<close>) a character matches a
  class when its lower case is the lower case of a member.
\<close>

type_synonym rpos = "char option \<times> string"

definition char_matches :: "bool \<Rightarrow> char list \<Rightarrow> char \<Rightarrow> bool" where
  "char_matches ic cs c =
     (c \<in> set cs \<or> (ic \<and> lower_char c \<in> set (map lower_char cs)))"

text \<open>
  The backtracking matcher: \<open>rmatch ic r p\<close> lists the positions at which a match of
  \<open>r\<close> that starts at \<open>p\<close> can end, in the order in which Python's engine tries them:
  the left alternative before the right one, one more round of a repetition before
  leaving it.  A round of a repetition that consumes nothing ends the repetition.
\<close>

function rmatch :: "bool \<Rightarrow> regex \<Rightarrow> rpos \<Rightarrow> rpos list" where
  "rmatch ic (Chars cs) (before, []) = []"
| "rmatch ic (Chars cs) (before, c # s) = (if char_matches ic cs c then [(Some c, s)] else [])"
| "rmatch ic WordB (before, s) =
     (if word_boundary before (first_char s) then [(before, s)] else [])"
| "rmatch ic Eps p = [p]"
| "rmatch ic (Seq r1 r2) p = concat (map (rmatch ic r2) (rmatch ic r1 p))"
| "rmatch ic (Alt r1 r2) p = rmatch ic r1 p @ rmatch ic r2 p"
| "rmatch ic (Star r) p =
     concat (map (\<lambda>q. if length (snd q) < length (snd p) then rmatch ic (Star r) q else [])
               (rmatch ic r p)) @ [p]"
  by pat_completeness auto
termination
  by (relation "measures [\<lambda>(ic, r, p). size r, \<lambda>(ic, r, p). length (snd p)]") auto

text \<open>
  The first match at a position, if there is one.  No pattern of the program matches the
  empty string, and a match is taken to consume at least one character.
\<close>

definition match_at :: "bool \<Rightarrow> regex \<Rightarrow> rpos \<Rightarrow> rpos option" where
  "match_at ic r p = find (\<lambda>q. length (snd q) < length (snd p)) (rmatch ic r p)"

text \<open>
  \<^verbatim>\<open>re.sub(pattern, repl, s)\<close> for a replacement without group references: the scan
  goes from left to right; at a match the replacement is written and the scan goes on
  behind the match, otherwise the character is copied.
\<close>

function re_sub :: "bool \<Rightarrow> regex \<Rightarrow> string \<Rightarrow> char option \<Rightarrow> string \<Rightarrow> string" where
  "re_sub ic r repl before s =
     (case match_at ic r (before, s) of
        Some (before', s') \<Rightarrow> repl @ re_sub ic r repl before' s'
      | None \<Rightarrow> (case s of [] \<Rightarrow> [] | c # cs \<Rightarrow> c # re_sub ic r repl (Some c) cs))"
  by pat_completeness auto
termination
proof (relation "measure (\<lambda>(ic, r, repl, before, s). length s)")
  show "wf (measure (\<lambda>(ic, r, repl, before, s). length s))" by simp
next
  fix ic r repl before s x2 x y
  assume "match_at ic r (before, s) = Some x2" and "(x, y) = x2"
  then have "find (\<lambda>q. length (snd q) < length s) (rmatch ic r (before, s)) = Some (x, y)"
    by (simp add: match_at_def)
  then have "length (snd (x, y)) < length s"
    unfolding find_Some_iff by (elim exE conjE) simp
  then have "length y < length s" by simp
  then show "((ic, r, repl, x, y), ic, r, repl, before, s)
      \<in> measure (\<lambda>(ic, r, repl, before, s). length s)"
    by simp
next
  fix ic r repl before s x21 x22
  assume "s = x21 # x22"
  then show "((ic, r, repl, Some x21, x22), ic, r, repl, before, s)
      \<in> measure (\<lambda>(ic, r, repl, before, s). length s)"
    by simp
qed

declare re_sub.simps [simp del]

text \<open>\<^verbatim>\<open>re.search(pattern, s) is not None\<close>: some position of \<open>s\<close> starts a match.\<close>

fun re_search :: "bool \<Rightarrow> regex \<Rightarrow> char option \<Rightarrow> string \<Rightarrow> bool" where
  "re_search ic r before [] = (match_at ic r (before, []) \<noteq> None)"
| "re_search ic r before (c # cs) =
     (match_at ic r (before, c # cs) \<noteq> None \<or> re_search ic r (Some c) cs)"

text \<open>\<^verbatim>\<open>s.split()\<close>: the maximal runs of characters that are not white space.\<close>

fun split_ws :: "string \<Rightarrow> string list" where
  "split_ws [] = []"
| "split_ws (c # cs) =
     (if isspace c then split_ws cs
      else (case cs of
              [] \<Rightarrow> [[c]]
            | d # _ \<Rightarrow>
                if isspace d then [c] # split_ws cs
                else (case split_ws cs of [] \<Rightarrow> [[c]] | w # ws \<Rightarrow> (c # w) # ws)))"

text \<open>
  \<^verbatim>\<open>s.replace(old, new)\<close>: the occurrences of \<open>old\<close>, from left to right and without
  overlap, are replaced; an empty \<open>old\<close> matches in front of every character and at the
  end.
\<close>

function replace :: "string \<Rightarrow> string \<Rightarrow> string \<Rightarrow> string" where
  "replace old new [] = (if old = [] then new else [])"
| "replace old new (c # cs) =
     (if old = [] then new @ c # replace old new cs
      else if prefix old (c # cs) then new @ replace old new (drop (length old) (c # cs))
      else c # replace old new cs)"
  by pat_completeness auto
termination
  by (relation "measure (\<lambda>(old, new, s). length s)") auto

section \<open>Text Normalizer: \<open>WebScraper._basic_text_cleaning\<close>\<close>

text \<open>
  The double quote is \<open>CHR 0x22\<close> and the apostrophe \<open>CHR 0x27\<close>.  The source line
  \<^verbatim>\<open>content.replace('"', '"').replace('"', '"')\<close> replaces the double quote by itself,
  twice.  In the line after it the three apostrophes open a string literal that the next
  three apostrophes close, so that Python reads it as one call of \<^verbatim>\<open>replace\<close>, of the
  15 characters \<open>quote_pattern\<close> by an apostrophe.
\<close>

definition double_quote :: string where
  "double_quote = [CHR 0x22]"

definition apostrophe :: string where
  "apostrophe = [CHR 0x27]"

definition quote_pattern :: string where
  "quote_pattern = '', '' @ double_quote @ apostrophe @ double_quote @ '').replace(''"

text \<open>\<^verbatim>\<open>\.{3,}\<close>, \<^verbatim>\<open>!{2,}\<close> and \<^verbatim>\<open>\?{2,}\<close>\<close>

definition dots_pattern :: regex where
  "dots_pattern = at_least 3 (Chars ''.'')"

definition bangs_pattern :: regex where
  "bangs_pattern = at_least 2 (Chars ''!'')"

definition questions_pattern :: regex where
  "questions_pattern = at_least 2 (Chars ''?'')"

definition basic_text_cleaning :: "string \<Rightarrow> string" where
  "basic_text_cleaning content =
     (let content = join '' '' (split_ws content);
          content = replace double_quote double_quote (replace double_quote double_quote content);
          content = replace quote_pattern apostrophe content;
          content = re_sub False dots_pattern ''...'' None content;
          content = re_sub False bangs_pattern ''!'' None content;
          content = re_sub False questions_pattern ''?'' None content
      in content)"

section \<open>Noise Filter: \<open>WebScraper._remove_irrelevant_content\<close>\<close>

text \<open>\<^verbatim>\<open>\s\<close> and \<^verbatim>\<open>\d\<close>\<close>

definition space :: regex where
  "space = Chars whitespace_chars"

definition digit :: regex where
  "digit = Chars digits"

text \<open>The list \<^verbatim>\<open>irrelevant_patterns\<close>, each pattern compiled with \<^verbatim>\<open>re.IGNORECASE\<close>.\<close>

definition irrelevant_patterns :: "regex list" where
  "irrelevant_patterns =
     [seqs [WordB,
            alts (map lit [''menu'', ''navigation'', ''nav'', ''header'', ''footer'', ''sidebar'',
                           ''advertisement'', ''ad'', ''banner'']),
            WordB],
      seqs [WordB, lit ''copyright'', plus1 space, rep 4 digit],
      seqs [WordB, lit ''privacy'', plus1 space, lit ''policy'', WordB],
      seqs [WordB, lit ''terms'', plus1 space, lit ''of'', plus1 space, lit ''service'', WordB],
      seqs [WordB, lit ''contact'', plus1 space, lit ''us'', WordB],
      seqs [WordB, lit ''about'', plus1 space, lit ''us'', WordB],
      seqs [WordB, lit ''sign'', plus1 space, lit ''in'', WordB],
      seqs [WordB, lit ''log'', plus1 space, lit ''in'', WordB],
      seqs [WordB, lit ''sign'', plus1 space, lit ''up'', WordB],
      seqs [WordB, lit ''register'', WordB],
      seqs [WordB, lit ''newsletter'', WordB],
      seqs [WordB, lit ''subscribe'', WordB]]"

text \<open>
  \<^verbatim>\<open>http[s]?://(?:[a-zA-Z]|[0-9]|[$-_@.&+]|[!*\\(\\),]|(?:%[0-9a-fA-F][0-9a-fA-F]))+\<close>.
  The range \<^verbatim>\<open>$-_\<close> is the characters \<open>0x24\<close> to \<open>0x5F\<close>; \<open>CHR 0x5C\<close> is the
  backslash.
\<close>

definition hexdigit :: regex where
  "hexdigit = Chars (digits @ ''abcdef'' @ ''ABCDEF'')"

definition url_pattern :: regex where
  "url_pattern =
     seqs [lit ''http'', opt (Chars ''s''), lit ''://'',
           plus1 (alts [Chars (ascii_lowercase @ ascii_uppercase),
                        Chars digits,
                        Chars (''$%&'' @ apostrophe @ ''()*+,-./'' @ digits @ '':;<=>?@'' @
                               ascii_uppercase @ ''['' @ [CHR 0x5C] @ '']^_'' @ ''@.&+''),
                        Chars (''!*'' @ [CHR 0x5C] @ ''('' @ [CHR 0x5C] @ ''),''),
                        seqs [Chars ''%'', hexdigit, hexdigit]])]"

text \<open>\<^verbatim>\<open>\b[A-Za-z0-9._%+-]+@[A-Za-z0-9.-]+\.[A-Z|a-z]{2,}\b\<close>\<close>

definition email_pattern :: regex where
  "email_pattern =
     seqs [WordB,
           plus1 (Chars (ascii_uppercase @ ascii_lowercase @ digits @ ''._%+-'')),
           Chars ''@'',
           plus1 (Chars (ascii_uppercase @ ascii_lowercase @ digits @ ''.-'')),
           Chars ''.'',
           at_least 2 (Chars (ascii_uppercase @ ''|'' @ ascii_lowercase)),
           WordB]"

text \<open>\<^verbatim>\<open>\b\d{3}[-.]?\d{3}[-.]?\d{4}\b\<close>\<close>

definition phone_pattern :: regex where
  "phone_pattern =
     seqs [WordB, rep 3 digit, opt (Chars ''-.''), rep 3 digit, opt (Chars ''-.''), rep 4 digit,
           WordB]"

definition remove_irrelevant_content :: "string \<Rightarrow> string" where
  "remove_irrelevant_content content =
     (let content = fold (\<lambda>pattern content. re_sub True pattern [] None content)
                      irrelevant_patterns content;
          content = re_sub False url_pattern [] None content;
          content = re_sub False email_pattern [] None content;
          content = re_sub False phone_pattern [] None content
      in join '' '' (split_ws content))"

section \<open>Sector Context Filter: \<open>WebScraper._sector_context_filter\<close>\<close>

text \<open>The dict \<^verbatim>\<open>sector_contexts\<close> of \<^verbatim>\<open>_sector_context_filter\<close>, in its order.\<close>

definition sector_contexts :: "(string \<times> string list) list" where
  "sector_contexts =
     [(''e-mobility'',
        [''electric'', ''vehicle'', ''battery'', ''charging'', ''sustainable'', ''mobility'',
         ''green'', ''energy'', ''transport'', ''autonomous'']),
      (''manufacturing'',
        [''manufacture'', ''production'', ''supply'', ''chain'', ''automation'', ''robotics'',
         ''factory'', ''industry'', ''efficiency'']),
      (''politics-governance'',
        [''government'', ''policy'', ''regulation'', ''election'', ''legislation'', ''political'',
         ''governance'', ''law'', ''minister'']),
      (''artificial intelligence & machine learning'',
        [''artificial'', ''intelligence'', ''machine'', ''learning'', ''ai'', ''algorithm'',
         ''data'', ''neural'', ''deep'']),
      (''startup & innovation'',
        [''startup'', ''innovation'', ''venture'', ''entrepreneur'', ''funding'', ''business'',
         ''model'', ''disruption'', ''scalability''])]"

text \<open>\<^verbatim>\<open>sum(1 for keyword in keywords if keyword in full_text)\<close>\<close>

definition context_score :: "string \<Rightarrow> string list \<Rightarrow> nat" where
  "context_score full_text keywords =
     length (filter (\<lambda>keyword. sublist keyword full_text) keywords)"

text \<open>
  \<^verbatim>\<open>max(sector_scores, key=sector_scores.get) if sector_scores else None\<close>: \<^verbatim>\<open>max\<close>
  keeps the item it has and takes a later one only when its key is greater.
\<close>

fun max_by_score :: "string \<times> nat \<Rightarrow> (string \<times> nat) list \<Rightarrow> string \<times> nat" where
  "max_by_score best [] = best"
| "max_by_score best (x # xs) = max_by_score (if snd x > snd best then x else best) xs"

definition best_sector_of :: "(string \<times> nat) list \<Rightarrow> (string \<times> nat) option" where
  "best_sector_of scores =
     (case scores of [] \<Rightarrow> None | x # xs \<Rightarrow> Some (max_by_score x xs))"

text \<open>
  The body of the \<^verbatim>\<open>try\<close> block: the bare \<^verbatim>\<open>except: pass\<close> keeps the content when
  \<^verbatim>\<open>sent_tokenize\<close> raises (or the lookup \<^verbatim>\<open>sector_contexts[best_sector]\<close> fails).
\<close>

text \<open>The dict \<^verbatim>\<open>sector_scores\<close> of the function is the list \<open>scores\<close> below.\<close>

definition sector_context_filter :: "sent_tokenizer \<Rightarrow> string \<Rightarrow> string \<Rightarrow> string" where
  "sector_context_filter sent_tokenize content title =
     (if content = [] then []
      else
        let full_text = lower (title @ '' '' @ content);
            scores =
              map (\<lambda>(sector, keywords). (sector, context_score full_text keywords))
                sector_contexts
        in case best_sector_of scores of
             None \<Rightarrow> content
           | Some (best_sector, score) \<Rightarrow>
               if best_sector \<noteq> [] \<and> score > 0 then
                 (case sent_tokenize content of
                    Inl e \<Rightarrow> content
                  | Inr sentences \<Rightarrow>
                      (case map_of sector_contexts best_sector of
                         None \<Rightarrow> content
                       | Some keywords \<Rightarrow>
                           let relevant_sentences =
                                 filter (\<lambda>sentence.
                                     list_ex (\<lambda>keyword. sublist keyword (lower sentence)) keywords)
                                   sentences
                           in if relevant_sentences \<noteq> [] then
                                (let content = join ''. '' relevant_sentences
                                 in if \<not> suffix ''.'' content then content @ ''.'' else content)
                              else content))
               else content)"

text \<open>
  The filter as section 4.5 of the specification words it: given the sector assigned by
  the Sector Scorer and a sector profile, the stage is skipped for \<open>general\<close>, and
  otherwise the sentences that contain one of that sector's keyword phrases as a plain
  substring are rejoined with \<^verbatim>\<open>". "\<close>.
\<close>

definition spec_context_filter ::
    "(string \<times> string list) list \<Rightarrow> string \<Rightarrow> string \<Rightarrow> string list \<Rightarrow> string" where
  "spec_context_filter profile sector content sentences =
     (if sector = ''general'' then content
      else join ''. ''
             (filter (\<lambda>sentence.
                  list_ex (\<lambda>keyword. sublist keyword (lower sentence))
                    (case map_of profile sector of None \<Rightarrow> [] | Some keywords \<Rightarrow> keywords))
                sentences))"

lemmas string_eval =
  lower_def lower_char_def ascii_uppercase_def ascii_lowercase_def digits_def
  latin1_uppercase_def latin1_lowercase_def latin1_other_alnum_def alnum_chars_def
  whitespace_chars_def isspace_def strip_def ensure_period_def
  is_word_char_def is_word_def word_boundary_def first_char_def keyword_match_at_def

section \<open>Theorems\<close>

subsection \<open>Category Refiner\<close>

text \<open>
  C6.  When \<open>electric\<close> occurs anywhere in the space-joined, lowercased keyword list,
  both variants of the Category Refiner return \<open>e-mobility\<close>, whatever the base
  category; when none of a variant's indicator terms occurs there, that variant returns
  the base category unchanged.
\<close>

theorem enhance_category_electric_or_base:
  "(sublist ''electric'' (lower (join '' '' keywords)) \<longrightarrow>
      enhance_category base keywords = ''e-mobility'' \<and>
      enhance_category_llm base keywords = ''e-mobility'') \<and>
   (\<not> list_ex (\<lambda>t. sublist t (lower (join '' '' keywords))) indicator_terms \<longrightarrow>
      enhance_category base keywords = base) \<and>
   (\<not> list_ex (\<lambda>t. sublist t (lower (join '' '' keywords))) indicator_terms_llm \<longrightarrow>
      enhance_category_llm base keywords = base)"
  by (simp add: enhance_category_def enhance_category_llm_def keyword_str_def
      indicator_terms_def indicator_terms_llm_def)

theorem enhance_category_electric_or_base_witness:
  "sublist ''electric'' (lower (join '' '' [''Charging'', ''Electric'', ''grid''])) \<and>
   enhance_category ''manufacturing'' [''Charging'', ''Electric'', ''grid''] = ''e-mobility'' \<and>
   enhance_category_llm ''ai & ml'' [''Charging'', ''Electric'', ''grid''] = ''e-mobility'' \<and>
   \<not> list_ex (\<lambda>t. sublist t (lower (join '' '' [''Coffee'', ''bean'']))) indicator_terms_llm \<and>
   enhance_category ''general'' [''Coffee'', ''bean''] = ''general'' \<and>
   enhance_category_llm ''general'' [''Coffee'', ''bean''] = ''general''"
proof -
  have e: "sublist ''electric'' (lower (join '' '' [''Charging'', ''Electric'', ''grid'']))"
    by (simp add: string_eval sublist_code)
  have n: "\<not> list_ex (\<lambda>t. sublist t (lower (join '' '' [''Coffee'', ''bean''])))
             indicator_terms_llm"
    by (simp add: string_eval sublist_code indicator_terms_def indicator_terms_llm_def)
  then have n': "\<not> list_ex (\<lambda>t. sublist t (lower (join '' '' [''Coffee'', ''bean''])))
             indicator_terms"
    by (simp add: indicator_terms_llm_def)
  from e n n'
    enhance_category_electric_or_base
      [of "[''Charging'', ''Electric'', ''grid'']" "''manufacturing''"]
    enhance_category_electric_or_base
      [of "[''Charging'', ''Electric'', ''grid'']" "''ai & ml''"]
    enhance_category_electric_or_base [of "[''Coffee'', ''bean'']" "''general''"]
  show ?thesis by blast
qed

subsection \<open>Coherence Filter\<close>

lemma is_grammatical_sentence_never:
  "is_grammatical_sentence wt pt s = Inr ok \<Longrightarrow> \<not> ok"
  by (auto simp: is_grammatical_sentence_def tuple_hasattr_def
      split: if_splits sum.splits)

lemma filter_grammatical_nil:
  "filter_grammatical wt pt ss = Inr fs \<Longrightarrow> fs = []"
proof (induction ss arbitrary: fs)
  case Nil
  then show ?case by simp
next
  case (Cons s ss)
  then show ?case
    by (auto simp: Let_def split: sum.splits if_splits
        dest: is_grammatical_sentence_never)
qed

lemma is_grammatical_sentence_returns:
  assumes "\<forall>s. \<not> isl (wt s)" and "\<forall>ws. \<not> isl (pt ws)"
  shows "\<exists>ok. is_grammatical_sentence wt pt s = Inr ok"
proof -
  obtain ws where ws: "wt (lower s) = Inr ws"
    using assms(1) by (metis isl_def sum.exhaust_sel sum.collapse(2))
  obtain tg where tg: "pt ws = Inr tg"
    using assms(2) by (metis isl_def sum.exhaust_sel sum.collapse(2))
  show ?thesis
    by (auto simp: is_grammatical_sentence_def ws tg Let_def)
qed

lemma filter_grammatical_returns:
  assumes "\<forall>s. \<not> isl (wt s)" and "\<forall>ws. \<not> isl (pt ws)"
  shows "\<exists>fs. filter_grammatical wt pt ss = Inr fs"
proof (induction ss)
  case Nil
  then show ?case by simp
next
  case (Cons s ss)
  obtain ok where "is_grammatical_sentence wt pt (strip s) = Inr ok"
    using is_grammatical_sentence_returns [OF assms] by blast
  with Cons show ?case by (auto simp: Let_def)
qed

text \<open>
  C3.  The Coherence Filter never returns anything but the empty string, for any
  sentence splitter, tokenizer and tagger: a tagged token is a tuple, no tuple passes
  \<^verbatim>\<open>hasattr(word, 'pos_')\<close>, so \<open>has_noun\<close> is false and no sentence is accepted.
  When the tokenizer and the tagger return on every input, the filter returns, and
  what it returns is the empty string.
\<close>

theorem grammar_and_coherence_filter_empty:
  "(grammar_and_coherence_filter st wt pt content = Inr r \<longrightarrow> r = '''') \<and>
   ((\<forall>s. \<not> isl (wt s)) \<and> (\<forall>ws. \<not> isl (pt ws)) \<longrightarrow>
      grammar_and_coherence_filter st wt pt content = Inr '''')"
proof (intro conjI impI)
  assume "grammar_and_coherence_filter st wt pt content = Inr r"
  then show "r = ''''"
    by (auto simp: grammar_and_coherence_filter_def ensure_period_def Let_def
        split: if_splits sum.splits dest: filter_grammatical_nil)
next
  assume a: "(\<forall>s. \<not> isl (wt s)) \<and> (\<forall>ws. \<not> isl (pt ws))"
  define sentences where
    "sentences = (case st content of Inr ss \<Rightarrow> ss | Inl e \<Rightarrow> split_on CHR ''.'' content)"
  obtain fs where fs: "filter_grammatical wt pt sentences = Inr fs"
    using filter_grammatical_returns a by blast
  then have "fs = []" by (rule filter_grammatical_nil)
  with fs show "grammar_and_coherence_filter st wt pt content = Inr ''''"
    by (simp add: grammar_and_coherence_filter_def ensure_period_def Let_def
        sentences_def [symmetric])
qed

theorem grammar_and_coherence_filter_empty_witness:
  "grammar_and_coherence_filter
     (\<lambda>c. Inr [''The factory builds an electric car.'', ''Workers assemble it.''])
     (\<lambda>s. Inr (split_on CHR '' '' s))
     (\<lambda>ws. Inr (map (\<lambda>w. (w, if w = ''builds'' \<or> w = ''assemble'' then ''VBZ'' else ''NN'')) ws))
     ''The factory builds an electric car. Workers assemble it.'' = Inr ''''"
  using grammar_and_coherence_filter_empty
    [of "\<lambda>c. Inr [''The factory builds an electric car.'', ''Workers assemble it.'']"
        "\<lambda>s. Inr (split_on CHR '' '' s)"
        "\<lambda>ws. Inr (map (\<lambda>w. (w, if w = ''builds'' \<or> w = ''assemble'' then ''VBZ'' else ''NN'')) ws)"
        "''The factory builds an electric car. Workers assemble it.''" "[]"]
  by simp

text \<open>
  C2.  A sentence of 22 characters whose tokens are tagged with a noun (\<open>cat\<close>, \<open>NN\<close>)
  and a verb (\<open>sat\<close>, \<open>VBD\<close>) passes the acceptance test of the specification, and
  \<open>_is_grammatical_sentence\<close> rejects it.
\<close>

theorem is_grammatical_sentence_rejects_noun_and_verb:
  "is_grammatical_sentence
     (\<lambda>s. Inr [''the'', ''cat'', ''sat'', ''on'', ''the'', ''mat''])
     (\<lambda>ws. Inr [(''the'', ''DT''), (''cat'', ''NN''), (''sat'', ''VBD''),
                 (''on'', ''IN''), (''the'', ''DT''), (''mat'', ''NN'')])
     ''The cat sat on the mat'' = Inr False \<and>
   spec_accepts_sentence
     [(''the'', ''DT''), (''cat'', ''NN''), (''sat'', ''VBD''),
      (''on'', ''IN''), (''the'', ''DT''), (''mat'', ''NN'')]
     ''The cat sat on the mat''"
  by (simp add: is_grammatical_sentence_def spec_accepts_sentence_def tuple_hasattr_def)

subsection \<open>Sector Scorer\<close>

lemma fold_max_ge: "(a::nat) \<le> fold max xs a"
  by (induction xs arbitrary: a) (auto intro: order_trans [OF max.cobounded2])

lemma fold_max_upper: "(a::nat) \<le> m \<Longrightarrow> \<forall>n\<in>set xs. n \<le> m \<Longrightarrow> fold max xs a \<le> m"
  by (induction xs arbitrary: a) auto

lemma fold_max_mem: "(m::nat) \<in> set xs \<Longrightarrow> m \<le> fold max xs a"
proof (induction xs arbitrary: a)
  case Nil
  then show ?case by simp
next
  case (Cons x xs)
  show ?case
  proof (cases "m = x")
    case True
    have "max x a \<le> fold max xs (max x a)" by (rule fold_max_ge)
    with True show ?thesis by simp
  next
    case False
    with Cons show ?thesis by simp
  qed
qed

lemma fold_max_in: "fold max xs (a::nat) \<in> insert a (set xs)"
proof (induction xs arbitrary: a)
  case Nil
  show ?case by simp
next
  case (Cons x xs)
  have ih: "fold max xs (max x a) \<in> insert (max x a) (set xs)" by (rule Cons.IH)
  have "max x a = x \<or> max x a = a" by (simp add: max_def)
  then show ?case
  proof
    assume "max x a = x"
    with ih show ?thesis by auto
  next
    assume "max x a = a"
    with ih show ?thesis by auto
  qed
qed

lemma max_score_of_eq:
  assumes "m \<in> set (map snd scores)" and "\<forall>n\<in>set (map snd scores). n \<le> m"
  shows "max_score_of scores = m"
proof -
  from assms(1) have ne: "scores \<noteq> []" by auto
  have "fold max (map snd scores) 0 \<le> m"
    using assms(2) by (intro fold_max_upper) auto
  moreover have "m \<le> fold max (map snd scores) 0"
    using assms(1) by (rule fold_max_mem)
  ultimately show ?thesis using ne by (simp add: max_score_of_def)
qed

lemma max_score_of_attained:
  "0 < max_score_of scores \<Longrightarrow> max_score_of scores \<in> set (map snd scores)"
  using fold_max_in [of "map snd scores" 0]
  by (auto simp: max_score_of_def split: if_splits)

lemma hd_filter_first:
  "i < length xs \<Longrightarrow> P (xs ! i) \<Longrightarrow> \<forall>j<i. \<not> P (xs ! j) \<Longrightarrow>
   \<exists>ys. filter P xs = xs ! i # ys"
proof (induction xs arbitrary: i)
  case Nil
  then show ?case by simp
next
  case (Cons x xs)
  show ?case
  proof (cases i)
    case 0
    with Cons.prems show ?thesis by simp
  next
    case (Suc k)
    with Cons.prems have "\<not> P x" by auto
    moreover have "\<exists>ys. filter P xs = xs ! k # ys"
      using Cons.prems Suc by (intro Cons.IH) auto
    ultimately show ?thesis using Suc by simp
  qed
qed

lemma filter_two_indices:
  assumes "i < length xs" "j < length xs" "i \<noteq> j" "P (xs ! i)" "P (xs ! j)"
  shows "2 \<le> length (filter P xs)"
proof -
  have fin: "finite {k. k < length xs \<and> P (xs ! k)}" by simp
  have sub: "{i, j} \<subseteq> {k. k < length xs \<and> P (xs ! k)}"
    using assms by simp
  have "card {i, j} \<le> card {k. k < length xs \<and> P (xs ! k)}"
    by (rule card_mono [OF fin sub])
  moreover have "card {i, j} = 2" using assms(3) by simp
  moreover have "length (filter P xs) = card {k. k < length xs \<and> P (xs ! k)}"
    by (rule length_filter_conv_card)
  ultimately show ?thesis by linarith
qed

lemma filter_unique_index:
  assumes "i < length xs" "P (xs ! i)" "\<forall>j<length xs. P (xs ! j) \<longrightarrow> j = i"
  shows "length (filter P xs) = 1"
proof -
  have "{k. k < length xs \<and> P (xs ! k)} = {i}"
  proof (rule set_eqI)
    fix k
    show "k \<in> {k. k < length xs \<and> P (xs ! k)} \<longleftrightarrow> k \<in> {i}"
      using assms by blast
  qed
  moreover have "length (filter P xs) = card {k. k < length xs \<and> P (xs ! k)}"
    by (rule length_filter_conv_card)
  ultimately show ?thesis by simp
qed

text \<open>The decision, for a maximum \<open>m\<close> given by its two properties.\<close>

lemma choose_category_unfold:
  assumes "m \<in> set (map snd scores)" and "\<forall>n\<in>set (map snd scores). n \<le> m"
    and "P = (\<lambda>(sector :: string, score). score = m)"
  shows "choose_category scores =
      (if 0 < m then
         if length (filter P scores) = 1 \<or> 2 \<le> m
         then (case map fst (filter P scores) of [] \<Rightarrow> Inl IndexError | sector # _ \<Rightarrow> Inr sector)
         else Inr ''general''
       else Inr ''general'')"
  by (simp add: choose_category_def Let_def max_score_of_eq [OF assms(1,2)] assms(3))

lemma choose_category_zero:
  assumes "m \<in> set (map snd scores)" and "\<forall>n\<in>set (map snd scores). n \<le> m" and "m = 0"
  shows "choose_category scores = Inr ''general''"
  using max_score_of_eq [OF assms(1,2)] assms(3) by (simp add: choose_category_def)

lemma choose_category_first:
  assumes "m \<in> set (map snd scores)" and "\<forall>n\<in>set (map snd scores). n \<le> m"
    and "i < length scores" and "snd (scores ! i) = m" and "\<forall>j<i. snd (scores ! j) \<noteq> m"
    and "2 \<le> m \<or> (0 < m \<and> (\<forall>j<length scores. snd (scores ! j) = m \<longrightarrow> j = i))"
  shows "choose_category scores = Inr (fst (scores ! i))"
proof -
  define P where "P = (\<lambda>(sector :: string, score). score = m)"
  have P: "P x \<longleftrightarrow> snd x = m" for x by (simp add: P_def case_prod_beta)
  have Pi: "P (scores ! i)" using assms(4) by (simp add: P)
  have first: "\<forall>j<i. \<not> P (scores ! j)" using assms(5) by (simp add: P)
  obtain ys where ys: "filter P scores = scores ! i # ys"
    using hd_filter_first [OF assms(3) Pi first] by blast
  note cc = choose_category_unfold [OF assms(1,2) P_def]
  from assms(6) show ?thesis
  proof
    assume "2 \<le> m"
    then show ?thesis by (simp add: cc ys)
  next
    assume u: "0 < m \<and> (\<forall>j<length scores. snd (scores ! j) = m \<longrightarrow> j = i)"
    then have "\<forall>j<length scores. P (scores ! j) \<longrightarrow> j = i"
      by (simp add: P)
    with assms(3) Pi have "length (filter P scores) = 1"
      by (rule filter_unique_index)
    with u show ?thesis by (simp add: cc ys)
  qed
qed

lemma choose_category_tie_at_one:
  assumes "m \<in> set (map snd scores)" and "\<forall>n\<in>set (map snd scores). n \<le> m" and "m = 1"
    and "i < length scores" and "j < length scores" and "i \<noteq> j"
    and "snd (scores ! i) = m" and "snd (scores ! j) = m"
  shows "choose_category scores = Inr ''general''"
proof -
  define P where "P = (\<lambda>(sector :: string, score). score = m)"
  have P: "P x \<longleftrightarrow> snd x = m" for x by (simp add: P_def case_prod_beta)
  have Pi: "P (scores ! i)" using assms(7) by (simp add: P)
  have Pj: "P (scores ! j)" using assms(8) by (simp add: P)
  have "2 \<le> length (filter P scores)"
    by (rule filter_two_indices [OF assms(4) assms(5) assms(6) Pi Pj])
  with assms(3) show ?thesis
    by (simp add: choose_category_unfold [OF assms(1,2) P_def])
qed

text \<open>The decision never raises, and what it returns is a sector of the table or \<open>general\<close>.\<close>

lemma choose_category_range:
  "\<exists>category. choose_category scores = Inr category \<and>
     category \<in> set (map fst scores @ [''general''])"
proof (cases "0 < max_score_of scores")
  case False
  then show ?thesis by (simp add: choose_category_def)
next
  case True
  define P where "P = (\<lambda>(sector :: string, score). score = max_score_of scores)"
  have "max_score_of scores \<in> set (map snd scores)"
    using True by (rule max_score_of_attained)
  then obtain x where x: "x \<in> set scores" "P x"
    by (auto simp: P_def)
  then have "filter P scores \<noteq> []"
    unfolding filter_empty_conv by blast
  then obtain y ys where ys: "filter P scores = y # ys"
    by (cases "filter P scores") auto
  then have "y \<in> set (filter P scores)" by simp
  then have y: "fst y \<in> set (map fst scores)" by auto
  have "choose_category scores = Inr (fst y) \<or> choose_category scores = Inr ''general''"
    using True by (simp add: choose_category_def Let_def P_def [symmetric] ys)
  with y show ?thesis by auto
qed

lemma sector_scores_length: "length (sector_scores full_text) = length sectors"
  by (simp add: sector_scores_def)

lemma sector_scores_nth:
  "i < length sectors \<Longrightarrow>
   sector_scores full_text ! i = (fst (sectors ! i), sector_score full_text (snd (sectors ! i)))"
  by (simp add: sector_scores_def case_prod_beta)

lemma sector_scores_snd:
  "map snd (sector_scores full_text) =
     map (\<lambda>(sector, keywords). sector_score full_text keywords) sectors"
  by (simp add: sector_scores_def case_prod_beta)

lemma sector_scores_fst: "map fst (sector_scores full_text) = map fst sectors"
  by (simp add: sector_scores_def case_prod_beta)

lemma sectors_length: "length sectors = 5"
  by (simp add: sectors_def)

lemma categorize_content_run:
  assumes "content_dict ''content'' = Some (Str content)"
    and "content_dict ''title'' = Some (Str title) \<or>
         (content_dict ''title'' = None \<and> title = '''')"
  shows "categorize_content content_dict =
      (case choose_category (sector_scores (lower content @ '' '' @ lower title)) of
         Inl e \<Rightarrow> Inl e
       | Inr category \<Rightarrow> Inr (content_dict(''category'' \<mapsto> Str category)))"
  using assms by (auto simp: categorize_content_def)

text \<open>
  A sector scores when one of its keyword phrases has an occurrence delimited by word
  boundaries: every keyword phrase of the table begins and ends with a word character.
\<close>

lemma findall_count_positive:
  "0 < findall_count keyword before subject \<longleftrightarrow>
   (\<exists>u v. subject = u @ v \<and>
          keyword_match_at keyword (if u = [] then before else Some (last u)) v)"
proof (induction subject arbitrary: before)
  case Nil
  show ?case by (simp add: keyword_match_at_def)
next
  case (Cons c cs)
  show ?case
  proof (cases "keyword_match_at keyword before (c # cs)")
    case True
    then have "\<exists>u v. c # cs = u @ v \<and>
        keyword_match_at keyword (if u = [] then before else Some (last u)) v"
      by (intro exI [of _ "[]"] exI [of _ "c # cs"]) simp
    with True show ?thesis by simp
  next
    case False
    have "(\<exists>u v. c # cs = u @ v \<and>
            keyword_match_at keyword (if u = [] then before else Some (last u)) v) \<longleftrightarrow>
          (\<exists>u' v. cs = u' @ v \<and>
            keyword_match_at keyword (if u' = [] then Some c else Some (last u')) v)"
      (is "?L \<longleftrightarrow> ?R")
    proof
      assume ?L
      then obtain u v where uv: "c # cs = u @ v"
        and m: "keyword_match_at keyword (if u = [] then before else Some (last u)) v"
        by blast
      from False uv m have "u \<noteq> []" by auto
      with uv obtain u' where u': "u = c # u'" and cs: "cs = u' @ v"
        by (cases u) auto
      from m u' have "keyword_match_at keyword (if u' = [] then Some c else Some (last u')) v"
        by (cases "u' = []") simp_all
      with cs show ?R by blast
    next
      assume ?R
      then obtain u' v where cs: "cs = u' @ v"
        and m: "keyword_match_at keyword (if u' = [] then Some c else Some (last u')) v"
        by blast
      have "c # cs = (c # u') @ v" using cs by simp
      moreover have "keyword_match_at keyword
          (if c # u' = [] then before else Some (last (c # u'))) v"
        using m by (cases "u' = []") simp_all
      ultimately show ?L by blast
    qed
    with False Cons.IH [of "Some c"] show ?thesis by simp
  qed
qed

lemma keyword_match_at_delimited:
  assumes "keyword \<noteq> []" and "is_word_char (hd keyword)" and "is_word_char (last keyword)"
  shows "keyword_match_at keyword before v \<longleftrightarrow>
     (\<exists>w. v = keyword @ w \<and> \<not> is_word before \<and> (w = [] \<or> \<not> is_word_char (hd w)))"
proof -
  have fc: "first_char (keyword @ w) = Some (hd keyword)" for w
    using assms(1) by (cases keyword) (simp_all add: first_char_def)
  have fw: "is_word (first_char w) \<longleftrightarrow> w \<noteq> [] \<and> is_word_char (hd w)" for w
    by (cases w) (simp_all add: first_char_def is_word_def)
  show ?thesis
  proof
    assume m: "keyword_match_at keyword before v"
    then have p: "prefix keyword v" by (simp add: keyword_match_at_def split: if_splits)
    then obtain w where v: "v = keyword @ w" by (auto simp add: prefix_def)
    from m v assms have "\<not> is_word before" and "\<not> is_word (first_char w)"
      by (simp_all add: keyword_match_at_def word_boundary_def fc is_word_def)
    with v fw show "\<exists>w. v = keyword @ w \<and> \<not> is_word before \<and> (w = [] \<or> \<not> is_word_char (hd w))"
      by blast
  next
    assume "\<exists>w. v = keyword @ w \<and> \<not> is_word before \<and> (w = [] \<or> \<not> is_word_char (hd w))"
    then obtain w where v: "v = keyword @ w" and b: "\<not> is_word before"
      and a: "w = [] \<or> \<not> is_word_char (hd w)"
      by blast
    from a fw have "\<not> is_word (first_char w)" by blast
    with v b assms show "keyword_match_at keyword before v"
      by (simp add: keyword_match_at_def word_boundary_def fc is_word_def)
  qed
qed

lemma findall_count_delimited:
  assumes "keyword \<noteq> []" and "is_word_char (hd keyword)" and "is_word_char (last keyword)"
  shows "0 < findall_count keyword None text \<longleftrightarrow> delimited_occurrence keyword text"
proof -
  have b: "is_word (if u = [] then None else Some (last u)) \<longleftrightarrow> u \<noteq> [] \<and> is_word_char (last u)"
    for u :: string
    by (simp add: is_word_def)
  show ?thesis
    unfolding findall_count_positive keyword_match_at_delimited [OF assms] delimited_occurrence_def b
    by auto
qed

lemma sum_list_positive: "0 < sum_list (map f xs) \<longleftrightarrow> (\<exists>x\<in>set xs. 0 < (f x :: nat))"
  by (induction xs) auto

lemma sector_score_positive:
  assumes "\<forall>k\<in>set keywords. k \<noteq> [] \<and> is_word_char (hd k) \<and> is_word_char (last k)"
  shows "0 < sector_score full_text keywords \<longleftrightarrow>
     (\<exists>keyword\<in>set keywords. delimited_occurrence keyword full_text)"
  using assms by (simp add: sector_score_def sum_list_positive findall_count_delimited)

lemma sectors_keywords:
  "list_all (\<lambda>(sector, keywords).
      list_all (\<lambda>k. k \<noteq> [] \<and> is_word_char (hd k) \<and> is_word_char (last k)) keywords)
    sectors"
  by code_simp

lemma scores_positive:
  assumes "scores = map (\<lambda>(sector, keywords). sector_score full_text keywords) sectors"
  shows "\<forall>i<length sectors.
     (0 < scores ! i) =
     (\<exists>keyword\<in>set (snd (sectors ! i)). delimited_occurrence keyword full_text)"
proof (intro allI impI)
  fix i assume i: "i < length sectors"
  then have s: "scores ! i = sector_score full_text (snd (sectors ! i))"
    by (simp add: assms case_prod_beta)
  from i have "sectors ! i \<in> set sectors" by simp
  with sectors_keywords have
    "\<forall>k\<in>set (snd (sectors ! i)). k \<noteq> [] \<and> is_word_char (hd k) \<and> is_word_char (last k)"
    unfolding list_all_iff by (auto simp add: case_prod_beta)
  then show "(0 < scores ! i) =
     (\<exists>keyword\<in>set (snd (sectors ! i)). delimited_occurrence keyword full_text)"
    unfolding s by (rule sector_score_positive)
qed

text \<open>
  C1, as the code has it.  For a record with a string under \<open>content\<close> (and a string
  or nothing under \<open>title\<close>), let \<open>scores\<close> be the sector scores, each the sum over
  the sector's keyword phrases of the number of word-boundary-delimited occurrences in
  \<^verbatim>\<open>content.lower() + ' ' + title.lower()\<close>, the content first and the title after
  it, and let \<open>m\<close> be their maximum.  Then \<open>categorize_content\<close> returns the record
  with a category such that: it is \<open>general\<close> when \<open>m = 0\<close>; it is the sector that
  attains \<open>m\<close> when \<open>m > 0\<close> and only one does; it is the first sector in the order of
  the table that attains \<open>m\<close> when \<open>m \<ge> 2\<close>; and it is \<open>general\<close> when \<open>m = 1\<close>
  and two sectors attain it.  A sector has a positive score exactly when one of its
  keyword phrases occurs in that text with no word character in front of it and none
  behind it.
\<close>

theorem categorize_content_decision:
  assumes "content_dict ''content'' = Some (Str content)"
    and "content_dict ''title'' = Some (Str title) \<or>
         (content_dict ''title'' = None \<and> title = '''')"
    and "scores = map (\<lambda>(sector, keywords).
                    sector_score (lower content @ '' '' @ lower title) keywords) sectors"
    and "m \<in> set scores" and "\<forall>n\<in>set scores. n \<le> m"
  shows "\<exists>category.
     categorize_content content_dict = Inr (content_dict(''category'' \<mapsto> Str category)) \<and>
     (m = 0 \<longrightarrow> category = ''general'') \<and>
     (\<forall>i<length sectors.
        0 < m \<and> scores ! i = m \<and> (\<forall>j<length sectors. scores ! j = m \<longrightarrow> j = i) \<longrightarrow>
        category = fst (sectors ! i)) \<and>
     (\<forall>i<length sectors.
        2 \<le> m \<and> scores ! i = m \<and> (\<forall>j<i. scores ! j \<noteq> m) \<longrightarrow>
        category = fst (sectors ! i)) \<and>
     (\<forall>i<length sectors. \<forall>j<length sectors.
        m = 1 \<and> i \<noteq> j \<and> scores ! i = m \<and> scores ! j = m \<longrightarrow> category = ''general'') \<and>
     (\<forall>i<length sectors.
        (0 < scores ! i) =
        (\<exists>keyword\<in>set (snd (sectors ! i)).
            delimited_occurrence keyword (lower content @ '' '' @ lower title)))"
proof -
  define sc where "sc = sector_scores (lower content @ '' '' @ lower title)"
  have snd_sc: "map snd sc = scores"
    unfolding sc_def assms(3) by (rule sector_scores_snd)
  have len: "length sc = length sectors"
    unfolding sc_def by (rule sector_scores_length)
  have nth_snd: "snd (sc ! i) = scores ! i" if "i < length sectors" for i
  proof -
    from that len have "i < length sc" by simp
    then have "map snd sc ! i = snd (sc ! i)" by (rule nth_map)
    then show ?thesis by (simp add: snd_sc)
  qed
  have nth_fst: "fst (sc ! i) = fst (sectors ! i)" if "i < length sectors" for i
    unfolding sc_def by (simp add: sector_scores_nth [OF that])
  have mem: "m \<in> set (map snd sc)" and ub: "\<forall>n\<in>set (map snd sc). n \<le> m"
    using assms(4,5) by (simp_all only: snd_sc)
  obtain category where cat: "choose_category sc = Inr category"
    using choose_category_range [of sc] by blast
  have run: "categorize_content content_dict =
      Inr (content_dict(''category'' \<mapsto> Str category))"
    using categorize_content_run [OF assms(1,2)] cat by (simp add: sc_def)
  have c0: "category = ''general''" if "m = 0"
    using choose_category_zero [OF mem ub that] cat by simp
  have c2: "category = fst (sectors ! i)"
    if i: "i < length sectors" and a: "scores ! i = m" "\<forall>j<i. scores ! j \<noteq> m"
      and b: "2 \<le> m \<or> (0 < m \<and> (\<forall>j<length sectors. scores ! j = m \<longrightarrow> j = i))" for i
  proof -
    have 1: "i < length sc" using i len by simp
    have 2: "snd (sc ! i) = m" using nth_snd [OF i] a(1) by simp
    have 3: "\<forall>j<i. snd (sc ! j) \<noteq> m"
    proof (intro allI impI)
      fix j assume "j < i"
      with i have jl: "j < length sectors" by simp
      from \<open>j < i\<close> a(2) have "scores ! j \<noteq> m" by blast
      with nth_snd [OF jl] show "snd (sc ! j) \<noteq> m" by simp
    qed
    have 4: "2 \<le> m \<or> (0 < m \<and> (\<forall>j<length sc. snd (sc ! j) = m \<longrightarrow> j = i))"
    proof (rule disjE [OF b])
      assume "2 \<le> m" then show ?thesis by (rule disjI1)
    next
      assume u: "0 < m \<and> (\<forall>j<length sectors. scores ! j = m \<longrightarrow> j = i)"
      have "\<forall>j<length sc. snd (sc ! j) = m \<longrightarrow> j = i"
      proof (intro allI impI)
        fix j assume "j < length sc" and e: "snd (sc ! j) = m"
        then have jl: "j < length sectors" using len by simp
        from e nth_snd [OF jl] have "scores ! j = m" by simp
        with u jl show "j = i" by blast
      qed
      with u show ?thesis by blast
    qed
    have "choose_category sc = Inr (fst (sc ! i))"
      by (rule choose_category_first [OF mem ub 1 2 3 4])
    with nth_fst [OF i] cat show ?thesis by simp
  qed
  have c3: "category = ''general''"
    if "i < length sectors" "j < length sectors" "m = 1" "i \<noteq> j"
       "scores ! i = m" "scores ! j = m" for i j
  proof -
    have 1: "i < length sc" "j < length sc" using that(1,2) len by simp_all
    have 2: "snd (sc ! i) = m" "snd (sc ! j) = m"
      using nth_snd [OF that(1)] nth_snd [OF that(2)] that(5,6) by simp_all
    have "choose_category sc = Inr ''general''"
      by (rule choose_category_tie_at_one [OF mem ub that(3) 1 that(4) 2])
    with cat show ?thesis by simp
  qed
  have B: "m = 0 \<longrightarrow> category = ''general''"
    using c0 by blast
  have C: "\<forall>i<length sectors.
        0 < m \<and> scores ! i = m \<and> (\<forall>j<length sectors. scores ! j = m \<longrightarrow> j = i) \<longrightarrow>
        category = fst (sectors ! i)"
  proof (intro allI impI)
    fix i
    assume i: "i < length sectors"
      and h: "0 < m \<and> scores ! i = m \<and> (\<forall>j<length sectors. scores ! j = m \<longrightarrow> j = i)"
    have f: "\<forall>j<i. scores ! j \<noteq> m"
    proof (intro allI impI)
      fix j assume "j < i"
      with i have "j < length sectors" by simp
      with h \<open>j < i\<close> show "scores ! j \<noteq> m" by auto
    qed
    from h have e: "scores ! i = m" by blast
    from h have b: "2 \<le> m \<or> (0 < m \<and> (\<forall>j<length sectors. scores ! j = m \<longrightarrow> j = i))"
      by blast
    show "category = fst (sectors ! i)" by (rule c2 [OF i e f b])
  qed
  have D: "\<forall>i<length sectors.
        2 \<le> m \<and> scores ! i = m \<and> (\<forall>j<i. scores ! j \<noteq> m) \<longrightarrow>
        category = fst (sectors ! i)"
  proof (intro allI impI)
    fix i
    assume i: "i < length sectors"
      and h: "2 \<le> m \<and> scores ! i = m \<and> (\<forall>j<i. scores ! j \<noteq> m)"
    from h have e: "scores ! i = m" and f: "\<forall>j<i. scores ! j \<noteq> m" by blast+
    from h have b: "2 \<le> m \<or> (0 < m \<and> (\<forall>j<length sectors. scores ! j = m \<longrightarrow> j = i))"
      by blast
    show "category = fst (sectors ! i)" by (rule c2 [OF i e f b])
  qed
  have E: "\<forall>i<length sectors. \<forall>j<length sectors.
        m = 1 \<and> i \<noteq> j \<and> scores ! i = m \<and> scores ! j = m \<longrightarrow> category = ''general''"
  proof (intro allI impI)
    fix i j
    assume i: "i < length sectors" and j: "j < length sectors"
      and h: "m = 1 \<and> i \<noteq> j \<and> scores ! i = m \<and> scores ! j = m"
    from h have 1: "m = 1" and 2: "i \<noteq> j" and 3: "scores ! i = m" and 4: "scores ! j = m"
      by blast+
    show "category = ''general''" by (rule c3 [OF i j 1 2 3 4])
  qed
  note F = scores_positive [OF assms(3)]
  from run B C D E F show ?thesis by (intro exI [of _ category] conjI)
qed

lemma categorize_content_eval:
  assumes "choose_category (sector_scores (lower content @ '' '' @ lower title)) = Inr category"
  shows "categorize_content [''content'' \<mapsto> Str content, ''title'' \<mapsto> Str title]
       = Inr [''content'' \<mapsto> Str content, ''title'' \<mapsto> Str title,
              ''category'' \<mapsto> Str category]"
  using assms by (simp add: categorize_content_def)

theorem categorize_content_decision_witness:
  "categorize_content
     [''content'' \<mapsto> Str ''Electric vehicle battery prices are falling.'',
      ''title'' \<mapsto> Str ''EV market'']
   = Inr ([''content'' \<mapsto> Str ''Electric vehicle battery prices are falling.'',
           ''title'' \<mapsto> Str ''EV market'', ''category'' \<mapsto> Str ''e-mobility'']) \<and>
   categorize_content [''content'' \<mapsto> Str ''The senate met a startup.'']
   = Inr ([''content'' \<mapsto> Str ''The senate met a startup.'',
           ''category'' \<mapsto> Str ''general'']) \<and>
   categorize_content [''content'' \<mapsto> Str ''ELECTRIC VEHICLE sales'', ''title'' \<mapsto> Str '''']
   = Inr ([''content'' \<mapsto> Str ''ELECTRIC VEHICLE sales'', ''title'' \<mapsto> Str '''',
           ''category'' \<mapsto> Str ''e-mobility'']) \<and>
   categorize_content [''content'' \<mapsto> Str ''Evening news'', ''title'' \<mapsto> Str '''']
   = Inr ([''content'' \<mapsto> Str ''Evening news'', ''title'' \<mapsto> Str '''',
           ''category'' \<mapsto> Str ''general'']) \<and>
   categorize_content [''content'' \<mapsto> Str (CHR 0xE9 # ''ev''), ''title'' \<mapsto> Str '''']
   = Inr ([''content'' \<mapsto> Str (CHR 0xE9 # ''ev''), ''title'' \<mapsto> Str '''',
           ''category'' \<mapsto> Str ''general'']) \<and>
   categorize_content [''content'' \<mapsto> Str ''An anti-ev bill'', ''title'' \<mapsto> Str ''EV'']
   = Inr ([''content'' \<mapsto> Str ''An anti-ev bill'', ''title'' \<mapsto> Str ''EV'',
           ''category'' \<mapsto> Str ''e-mobility'']) \<and>
   categorize_content [''content'' \<mapsto> Str ''ev ev policy law'', ''title'' \<mapsto> Str '''']
   = Inr ([''content'' \<mapsto> Str ''ev ev policy law'', ''title'' \<mapsto> Str '''',
           ''category'' \<mapsto> Str ''e-mobility''])"
proof -
  have w1: "categorize_content
     [''content'' \<mapsto> Str ''Electric vehicle battery prices are falling.'',
      ''title'' \<mapsto> Str ''EV market'']
   = Inr ([''content'' \<mapsto> Str ''Electric vehicle battery prices are falling.'',
           ''title'' \<mapsto> Str ''EV market'', ''category'' \<mapsto> Str ''e-mobility''])"
  proof -
    let ?d = "[''content'' \<mapsto> Str ''Electric vehicle battery prices are falling.'',
        ''title'' \<mapsto> Str ''EV market'']"
    have s: "[3, 0, 0, 0, 0] = map (\<lambda>(sector, keywords).
        sector_score (lower ''Electric vehicle battery prices are falling.'' @ '' '' @
          lower ''EV market'') keywords) sectors"
      by code_simp
    have c: "?d ''content'' = Some (Str ''Electric vehicle battery prices are falling.'')"
      by simp
    have t: "?d ''title'' = Some (Str ''EV market'') \<or>
        (?d ''title'' = None \<and> ''EV market'' = '''')"
      by simp
    have mem: "3 \<in> set [3, 0, 0, 0, 0::nat]" by simp
    have ub: "\<forall>n\<in>set [3, 0, 0, 0, 0::nat]. n \<le> 3" by simp
    note th = categorize_content_decision [OF c t s mem ub]
    have "\<exists>category.
        categorize_content ?d = Inr (?d(''category'' \<mapsto> Str category)) \<and>
        (\<forall>i<length sectors.
          2 \<le> (3::nat) \<and> [3, 0, 0, 0, 0::nat] ! i = 3 \<and> (\<forall>j<i. [3, 0, 0, 0, 0::nat] ! j \<noteq> 3) \<longrightarrow>
          category = fst (sectors ! i))"
      using th by (elim exE conjE, intro exI conjI) assumption+
    then obtain category
      where r: "categorize_content ?d = Inr (?d(''category'' \<mapsto> Str category))"
      and f: "\<forall>i<length sectors.
          2 \<le> (3::nat) \<and> [3, 0, 0, 0, 0::nat] ! i = 3 \<and> (\<forall>j<i. [3, 0, 0, 0, 0::nat] ! j \<noteq> 3) \<longrightarrow>
          category = fst (sectors ! i)"
      by blast
    from f [rule_format, of 0] have "category = fst (sectors ! 0)"
      by (simp add: sectors_length)
    then have "category = ''e-mobility''" by (simp add: sectors_def)
    with r show ?thesis by simp
  qed
  have w2: "categorize_content [''content'' \<mapsto> Str ''The senate met a startup.'']
   = Inr ([''content'' \<mapsto> Str ''The senate met a startup.'',
           ''category'' \<mapsto> Str ''general''])"
  proof -
    let ?d = "[''content'' \<mapsto> Str ''The senate met a startup.'']"
    have s: "[0, 0, 1, 0, 1] = map (\<lambda>(sector, keywords).
        sector_score (lower ''The senate met a startup.'' @ '' '' @ lower '''') keywords) sectors"
      by code_simp
    have c: "?d ''content'' = Some (Str ''The senate met a startup.'')"
      by simp
    have t: "?d ''title'' = Some (Str '''') \<or> (?d ''title'' = None \<and> '''' = '''')"
      by simp
    have mem: "1 \<in> set [0, 0, 1, 0, 1::nat]" by simp
    have ub: "\<forall>n\<in>set [0, 0, 1, 0, 1::nat]. n \<le> 1" by simp
    note th = categorize_content_decision [OF c t s mem ub]
    have "\<exists>category.
        categorize_content ?d = Inr (?d(''category'' \<mapsto> Str category)) \<and>
        (\<forall>i<length sectors. \<forall>j<length sectors.
          (1::nat) = 1 \<and> i \<noteq> j \<and> [0, 0, 1, 0, 1::nat] ! i = 1 \<and> [0, 0, 1, 0, 1::nat] ! j = 1 \<longrightarrow>
          category = ''general'')"
      using th by (elim exE conjE, intro exI conjI) assumption+
    then obtain category
      where r: "categorize_content ?d = Inr (?d(''category'' \<mapsto> Str category))"
      and f: "\<forall>i<length sectors. \<forall>j<length sectors.
          (1::nat) = 1 \<and> i \<noteq> j \<and> [0, 0, 1, 0, 1::nat] ! i = 1 \<and> [0, 0, 1, 0, 1::nat] ! j = 1 \<longrightarrow>
          category = ''general''"
      by blast
    from f [rule_format, of 2 4] have "category = ''general''"
      by (simp add: sectors_length)
    with r show ?thesis by simp
  qed
  have "choose_category (sector_scores (lower ''ELECTRIC VEHICLE sales'' @ '' '' @ lower ''''))
      = Inr ''e-mobility''"
    by code_simp
  then have w3: "categorize_content
      [''content'' \<mapsto> Str ''ELECTRIC VEHICLE sales'', ''title'' \<mapsto> Str '''']
    = Inr ([''content'' \<mapsto> Str ''ELECTRIC VEHICLE sales'', ''title'' \<mapsto> Str '''',
            ''category'' \<mapsto> Str ''e-mobility''])"
    by (rule categorize_content_eval)
  have "choose_category (sector_scores (lower ''Evening news'' @ '' '' @ lower ''''))
      = Inr ''general''"
    by code_simp
  then have w4: "categorize_content [''content'' \<mapsto> Str ''Evening news'', ''title'' \<mapsto> Str '''']
    = Inr ([''content'' \<mapsto> Str ''Evening news'', ''title'' \<mapsto> Str '''',
            ''category'' \<mapsto> Str ''general''])"
    by (rule categorize_content_eval)
  have "choose_category (sector_scores (lower (CHR 0xE9 # ''ev'') @ '' '' @ lower ''''))
      = Inr ''general''"
    by code_simp
  then have w5: "categorize_content
      [''content'' \<mapsto> Str (CHR 0xE9 # ''ev''), ''title'' \<mapsto> Str '''']
    = Inr ([''content'' \<mapsto> Str (CHR 0xE9 # ''ev''), ''title'' \<mapsto> Str '''',
            ''category'' \<mapsto> Str ''general''])"
    by (rule categorize_content_eval)
  have "choose_category (sector_scores (lower ''An anti-ev bill'' @ '' '' @ lower ''EV''))
      = Inr ''e-mobility''"
    by code_simp
  then have w6: "categorize_content
      [''content'' \<mapsto> Str ''An anti-ev bill'', ''title'' \<mapsto> Str ''EV'']
    = Inr ([''content'' \<mapsto> Str ''An anti-ev bill'', ''title'' \<mapsto> Str ''EV'',
            ''category'' \<mapsto> Str ''e-mobility''])"
    by (rule categorize_content_eval)
  have "choose_category (sector_scores (lower ''ev ev policy law'' @ '' '' @ lower ''''))
      = Inr ''e-mobility''"
    by code_simp
  then have w7: "categorize_content
      [''content'' \<mapsto> Str ''ev ev policy law'', ''title'' \<mapsto> Str '''']
    = Inr ([''content'' \<mapsto> Str ''ev ev policy law'', ''title'' \<mapsto> Str '''',
            ''category'' \<mapsto> Str ''e-mobility''])"
    by (rule categorize_content_eval)
  from w1 w2 w3 w4 w5 w6 w7 show ?thesis by (intro conjI)
qed

text \<open>
  C1, as the specification states it, fails: the scores are not those of the title
  followed by the content.  For the content \<open>Vehicle prices fall\<close> under the title
  \<open>Electric\<close> the code scores \<open>vehicle prices fall electric\<close>, where no keyword phrase
  occurs, and assigns \<open>general\<close>; in \<open>electric vehicle prices fall\<close> the phrase
  \<open>electric vehicle\<close> occurs once, which gives \<open>e-mobility\<close>.
\<close>

theorem categorize_content_order_counterexample:
  "categorize_content
     [''content'' \<mapsto> Str ''Vehicle prices fall'', ''title'' \<mapsto> Str ''Electric'']
   = Inr ([''content'' \<mapsto> Str ''Vehicle prices fall'', ''title'' \<mapsto> Str ''Electric'',
           ''category'' \<mapsto> Str ''general'']) \<and>
   spec_categorize ''Electric'' ''Vehicle prices fall'' = Inr ''e-mobility''"
proof
  have "choose_category (sector_scores (lower ''Vehicle prices fall'' @ '' '' @ lower ''Electric''))
      = Inr ''general''"
    by code_simp
  then show "categorize_content
     [''content'' \<mapsto> Str ''Vehicle prices fall'', ''title'' \<mapsto> Str ''Electric'']
   = Inr ([''content'' \<mapsto> Str ''Vehicle prices fall'', ''title'' \<mapsto> Str ''Electric'',
           ''category'' \<mapsto> Str ''general''])"
    by (rule categorize_content_eval)
  show "spec_categorize ''Electric'' ''Vehicle prices fall'' = Inr ''e-mobility''"
    by code_simp
qed

subsection \<open>The categories the code assigns\<close>

lemma scorer_categories_sectors: "map fst sectors @ [''general''] = scorer_categories"
  by (simp add: sectors_def scorer_categories_def)

lemma categorize_content_category:
  assumes "categorize_content d = Inr d'"
  shows "\<exists>c. d' ''category'' = Some (Str c) \<and> c \<in> set scorer_categories"
proof -
  from assms obtain content title where c: "d ''content'' = Some (Str content)"
    and t: "d ''title'' = Some (Str title) \<or> (d ''title'' = None \<and> title = '''')"
    by (auto simp: categorize_content_def split: option.splits pyval.splits)
  define sc where "sc = sector_scores (lower content @ '' '' @ lower title)"
  obtain category where cat: "choose_category sc = Inr category"
    and mem: "category \<in> set (map fst sc @ [''general''])"
    using choose_category_range [of sc] by blast
  have "map fst sc @ [''general''] = scorer_categories"
    unfolding sc_def sector_scores_fst by (rule scorer_categories_sectors)
  with mem have "category \<in> set scorer_categories" by simp
  moreover have "d' = d(''category'' \<mapsto> Str category)"
    using categorize_content_run [OF c t] cat assms by (simp add: sc_def)
  ultimately show ?thesis by simp
qed

text \<open>
  C4, as the code has it.  The category \<open>categorize_content\<close> sets is one of the six
  literals \<open>e-mobility\<close>, \<open>manufacturing\<close>, \<open>politics-governance\<close>,
  \<open>artificial intelligence & machine learning\<close>, \<open>startup & innovation\<close>, \<open>general\<close>;
  \<open>_enhance_category\<close> of \<^verbatim>\<open>processor.py\<close> returns \<open>e-mobility\<close>, \<open>manufacturing\<close>,
  \<open>politics-governance\<close> or the base category it was given, and that of
  \<^verbatim>\<open>processor_llm.py\<close> one of these, \<open>startup & innovation\<close> or \<open>ai & ml\<close>.
\<close>

theorem category_in_code_literals:
  "(categorize_content d = Inr d' \<longrightarrow>
      (\<exists>c. d' ''category'' = Some (Str c) \<and> c \<in> set scorer_categories)) \<and>
   enhance_category base keywords \<in> set (refiner_categories @ [base]) \<and>
   enhance_category_llm base keywords \<in> set (refiner_llm_categories @ [base])"
proof (intro conjI impI)
  assume "categorize_content d = Inr d'"
  then show "\<exists>c. d' ''category'' = Some (Str c) \<and> c \<in> set scorer_categories"
    by (rule categorize_content_category)
next
  show "enhance_category base keywords \<in> set (refiner_categories @ [base])"
    by (simp add: enhance_category_def refiner_categories_def Let_def)
next
  show "enhance_category_llm base keywords \<in> set (refiner_llm_categories @ [base])"
    by (simp add: enhance_category_llm_def refiner_llm_categories_def refiner_categories_def
        Let_def)
qed

lemma categorize_algorithm:
  "categorize_content [''content'' \<mapsto> Str ''A new algorithm'']
   = Inr [''content'' \<mapsto> Str ''A new algorithm'',
          ''category'' \<mapsto> Str ''artificial intelligence & machine learning'']"
proof -
  have "choose_category (sector_scores (lower ''A new algorithm'' @ '' '' @ lower ''''))
      = Inr ''artificial intelligence & machine learning''"
    by code_simp
  then show ?thesis by (simp add: categorize_content_def)
qed

theorem category_in_code_literals_witness:
  "categorize_content [''content'' \<mapsto> Str ''A new algorithm'']
   = Inr [''content'' \<mapsto> Str ''A new algorithm'',
          ''category'' \<mapsto> Str ''artificial intelligence & machine learning''] \<and>
   (\<exists>c. [''content'' \<mapsto> Str ''A new algorithm'',
          ''category'' \<mapsto> Str ''artificial intelligence & machine learning''] ''category''
        = Some (Str c) \<and> c \<in> set scorer_categories) \<and>
   enhance_category ''general'' [''funding''] \<in> set (refiner_categories @ [''general'']) \<and>
   enhance_category_llm ''general'' [''funding'']
     \<in> set (refiner_llm_categories @ [''general''])"
  using categorize_algorithm
    category_in_code_literals
      [of "[''content'' \<mapsto> Str ''A new algorithm'']"
          "[''content'' \<mapsto> Str ''A new algorithm'',
            ''category'' \<mapsto> Str ''artificial intelligence & machine learning'']"
          "''general''" "[''funding'']"]
  by blast

text \<open>
  C4, as the specification states it, fails: for the content \<open>A new algorithm\<close> the
  Sector Scorer assigns \<open>artificial intelligence & machine learning\<close>, and for the
  keyword \<open>funding\<close> the Category Refiner of \<^verbatim>\<open>processor_llm.py\<close> returns
  \<open>startup & innovation\<close>; neither is a member of the Sector enumeration of the
  specification.
\<close>

theorem category_enumeration_counterexample:
  "categorize_content [''content'' \<mapsto> Str ''A new algorithm'']
   = Inr [''content'' \<mapsto> Str ''A new algorithm'',
          ''category'' \<mapsto> Str ''artificial intelligence & machine learning''] \<and>
   ''artificial intelligence & machine learning'' \<notin> set spec_sector_enumeration \<and>
   enhance_category_llm ''general'' [''funding''] = ''startup & innovation'' \<and>
   ''startup & innovation'' \<notin> set spec_sector_enumeration"
proof -
  have "enhance_category_llm ''general'' [''funding''] = ''startup & innovation''"
    by (simp add: enhance_category_llm_def keyword_str_def string_eval sublist_code)
  moreover have "''artificial intelligence & machine learning'' \<notin> set spec_sector_enumeration"
    and "''startup & innovation'' \<notin> set spec_sector_enumeration"
    by (simp_all add: spec_sector_enumeration_def)
  ultimately show ?thesis using categorize_algorithm by simp
qed

subsection \<open>Text Normalizer\<close>

text \<open>
  C8.  The Text Normalizer is not idempotent.  The input \<open>x\<close> is the 29 characters
  \<^verbatim>\<open>, ", "'").replace(").replace(\<close>.  Cleaning \<open>x\<close> gives the 15 characters
  \<^verbatim>\<open>, "'").replace(\<close>, and cleaning these gives a single apostrophe.
\<close>

theorem basic_text_cleaning_not_idempotent:
  "basic_text_cleaning ('', '' @ double_quote @ quote_pattern @ double_quote @ '').replace('')
     = quote_pattern \<and>
   basic_text_cleaning quote_pattern = apostrophe \<and>
   basic_text_cleaning
     (basic_text_cleaning ('', '' @ double_quote @ quote_pattern @ double_quote @ '').replace(''))
     \<noteq> basic_text_cleaning ('', '' @ double_quote @ quote_pattern @ double_quote @ '').replace('')"
proof -
  have 1: "basic_text_cleaning
      ('', '' @ double_quote @ quote_pattern @ double_quote @ '').replace('') = quote_pattern"
    by code_simp
  have 2: "basic_text_cleaning quote_pattern = apostrophe"
    by code_simp
  have 3: "apostrophe \<noteq> quote_pattern"
    by (simp add: apostrophe_def quote_pattern_def)
  from 1 2 3 show ?thesis by simp
qed

subsection \<open>Noise Filter\<close>

lemma re_sub_no_match:
  "\<not> re_search ic r before s \<Longrightarrow> re_sub ic r repl before s = s"
proof (induction s arbitrary: before)
  case Nil
  then have "match_at ic r (before, []) = None"
    unfolding re_search.simps by blast
  then show ?case by (subst re_sub.simps) simp
next
  case (Cons c cs)
  have m: "match_at ic r (before, c # cs) = None"
    and n: "\<not> re_search ic r (Some c) cs"
    using Cons.prems unfolding re_search.simps by blast+
  have "re_sub ic r repl (Some c) cs = cs" using n by (rule Cons.IH)
  with m show ?case by (subst re_sub.simps) simp
qed

lemma fold_re_sub_no_match:
  "\<not> list_ex (\<lambda>r. re_search ic r None s) rs \<Longrightarrow>
   fold (\<lambda>pattern content. re_sub ic pattern repl None content) rs s = s"
  by (induction rs) (simp_all add: re_sub_no_match)

lemma concat_split_ws: "concat (split_ws s) = filter (\<lambda>c. \<not> isspace c) s"
proof (induction s rule: split_ws.induct)
  case 1
  show ?case by simp
next
  case (2 c cs)
  show ?case
  proof (cases "isspace c")
    case True
    with 2 show ?thesis by simp
  next
    case c: False
    show ?thesis
    proof (cases cs)
      case Nil
      with c show ?thesis by simp
    next
      case (Cons d ds)
      show ?thesis
      proof (cases "isspace d")
        case True
        with c Cons 2 show ?thesis by simp
      next
        case False
        with c Cons 2 have ih: "concat (split_ws cs) = filter (\<lambda>c. \<not> isspace c) cs"
          by simp
        from c Cons False ih show ?thesis
          by (cases "split_ws cs") auto
      qed
    qed
  qed
qed

lemma filter_join:
  "filter P sep = [] \<Longrightarrow> filter P (join sep ws) = filter P (concat ws)"
  by (induction sep ws rule: join.induct) simp_all

lemma join_split_ws_nonspace:
  "filter (\<lambda>c. \<not> isspace c) (join '' '' (split_ws s)) = filter (\<lambda>c. \<not> isspace c) s"
proof -
  have "filter (\<lambda>c. \<not> isspace c) '' '' = []"
    by (simp add: isspace_def whitespace_chars_def)
  then have "filter (\<lambda>c. \<not> isspace c) (join '' '' (split_ws s))
      = filter (\<lambda>c. \<not> isspace c) (concat (split_ws s))"
    by (rule filter_join)
  then show ?thesis by (simp add: concat_split_ws)
qed

text \<open>
  C10, as the code has it.  When none of the twelve boilerplate patterns (without regard
  to case), nor the URL, the e-mail or the phone pattern matches anywhere in the text,
  the Noise Filter returns \<^verbatim>\<open>' '.join(content.split())\<close>: the text with its white
  space collapsed, and the same characters that are not white space.
\<close>

theorem remove_irrelevant_content_whitespace_only:
  assumes "\<not> list_ex (\<lambda>pattern. re_search True pattern None content) irrelevant_patterns"
    and "\<not> re_search False url_pattern None content"
    and "\<not> re_search False email_pattern None content"
    and "\<not> re_search False phone_pattern None content"
  shows "remove_irrelevant_content content = join '' '' (split_ws content) \<and>
         filter (\<lambda>c. \<not> isspace c) (remove_irrelevant_content content)
           = filter (\<lambda>c. \<not> isspace c) content"
proof -
  have "remove_irrelevant_content content = join '' '' (split_ws content)"
    using assms
    by (simp add: remove_irrelevant_content_def Let_def fold_re_sub_no_match re_sub_no_match)
  then show ?thesis by (simp add: join_split_ws_nonspace)
qed

theorem remove_irrelevant_content_whitespace_only_witness:
  "remove_irrelevant_content ''Battery   prices are  falling. '' = ''Battery prices are falling.'' \<and>
   filter (\<lambda>c. \<not> isspace c) (remove_irrelevant_content ''Battery   prices are  falling. '')
     = ''Batterypricesarefalling.''"
proof -
  have 1: "\<not> list_ex (\<lambda>pattern. re_search True pattern None ''Battery   prices are  falling. '')
             irrelevant_patterns"
    by code_simp
  have 2: "\<not> re_search False url_pattern None ''Battery   prices are  falling. ''"
    by code_simp
  have 3: "\<not> re_search False email_pattern None ''Battery   prices are  falling. ''"
    by code_simp
  have 4: "\<not> re_search False phone_pattern None ''Battery   prices are  falling. ''"
    by code_simp
  have 5: "join '' '' (split_ws ''Battery   prices are  falling. '') = ''Battery prices are falling.''"
    by code_simp
  have 6: "filter (\<lambda>c. \<not> isspace c) ''Battery   prices are  falling. ''
      = ''Batterypricesarefalling.''"
    by code_simp
  note th = remove_irrelevant_content_whitespace_only [OF 1 2 3 4]
  from th have "remove_irrelevant_content ''Battery   prices are  falling. ''
      = join '' '' (split_ws ''Battery   prices are  falling. '')"
    by (rule conjunct1)
  then have a: "remove_irrelevant_content ''Battery   prices are  falling. ''
      = ''Battery prices are falling.''"
    by (simp only: 5)
  from th have "filter (\<lambda>c. \<not> isspace c)
        (remove_irrelevant_content ''Battery   prices are  falling. '')
      = filter (\<lambda>c. \<not> isspace c) ''Battery   prices are  falling. ''"
    by (rule conjunct2)
  then have b: "filter (\<lambda>c. \<not> isspace c)
        (remove_irrelevant_content ''Battery   prices are  falling. '')
      = ''Batterypricesarefalling.''"
    by (simp only: 6)
  from a b show ?thesis by (rule conjI)
qed

text \<open>
  C10, as the specification states it, fails: \<open>Open the menu now\<close> holds no URL, no
  e-mail address and no phone number, and the Noise Filter removes the word \<open>menu\<close>
  from it.
\<close>

theorem remove_irrelevant_content_counterexample:
  "\<not> re_search False url_pattern None ''Open the menu now'' \<and>
   \<not> re_search False email_pattern None ''Open the menu now'' \<and>
   \<not> re_search False phone_pattern None ''Open the menu now'' \<and>
   remove_irrelevant_content ''Open the menu now'' = ''Open the now'' \<and>
   filter (\<lambda>c. \<not> isspace c) (remove_irrelevant_content ''Open the menu now'')
     \<noteq> filter (\<lambda>c. \<not> isspace c) ''Open the menu now''"
proof -
  have 1: "\<not> re_search False url_pattern None ''Open the menu now''" by code_simp
  have 2: "\<not> re_search False email_pattern None ''Open the menu now''" by code_simp
  have 3: "\<not> re_search False phone_pattern None ''Open the menu now''" by code_simp
  have 4: "remove_irrelevant_content ''Open the menu now'' = ''Open the now''" by code_simp
  have 5: "filter (\<lambda>c. \<not> isspace c) ''Open the now''
      \<noteq> filter (\<lambda>c. \<not> isspace c) ''Open the menu now''"
    by code_simp
  from 4 5 have 6: "filter (\<lambda>c. \<not> isspace c) (remove_irrelevant_content ''Open the menu now'')
      \<noteq> filter (\<lambda>c. \<not> isspace c) ''Open the menu now''"
    by simp
  from 1 2 3 4 6 show ?thesis by (intro conjI)
qed

subsection \<open>Sector Context Filter\<close>

lemma max_by_score_keep:
  "\<forall>y\<in>set ys. snd y \<le> snd best \<Longrightarrow> max_by_score best ys = best"
  by (induction ys arbitrary: best) auto

lemma max_by_score_later:
  "b < length ys \<Longrightarrow> snd best < snd (ys ! b) \<Longrightarrow> \<forall>j<b. snd (ys ! j) < snd (ys ! b) \<Longrightarrow>
   \<forall>y\<in>set ys. snd y \<le> snd (ys ! b) \<Longrightarrow> max_by_score best ys = ys ! b"
proof (induction ys arbitrary: best b)
  case Nil
  then show ?case by simp
next
  case (Cons y ys)
  show ?case
  proof (cases b)
    case 0
    with Cons.prems have "snd best < snd y" and "\<forall>z\<in>set ys. snd z \<le> snd y" by simp_all
    then show ?thesis using 0 by (simp add: max_by_score_keep)
  next
    case (Suc k)
    with Cons.prems have k: "k < length ys" and top: "\<forall>z\<in>set ys. snd z \<le> snd (ys ! k)"
      and y: "snd y < snd (ys ! k)" and best: "snd best < snd (ys ! k)"
      by auto
    have before: "\<forall>j<k. snd (ys ! j) < snd (ys ! k)"
    proof (intro allI impI)
      fix j assume "j < k"
      then have "Suc j < b" using Suc by simp
      with Cons.prems(3) have "snd ((y # ys) ! Suc j) < snd ((y # ys) ! b)" by blast
      then show "snd (ys ! j) < snd (ys ! k)" using Suc by simp
    qed
    have "snd (if snd best < snd y then y else best) < snd (ys ! k)"
      using y best by simp
    then have "max_by_score (if snd best < snd y then y else best) ys = ys ! k"
      using k before top by (intro Cons.IH) auto
    then show ?thesis using Suc by simp
  qed
qed

lemma best_sector_of_first_max:
  assumes "b < length xs" and "\<forall>x\<in>set xs. snd x \<le> snd (xs ! b)"
    and "\<forall>j<b. snd (xs ! j) < snd (xs ! b)"
  shows "best_sector_of xs = Some (xs ! b)"
proof (cases xs)
  case Nil
  with assms(1) show ?thesis by simp
next
  case (Cons x rest)
  show ?thesis
  proof (cases b)
    case 0
    with assms(2) Cons have "\<forall>y\<in>set rest. snd y \<le> snd x" by simp
    then show ?thesis using Cons 0 by (simp add: best_sector_of_def max_by_score_keep)
  next
    case (Suc k)
    with assms Cons have k: "k < length rest" and top: "\<forall>y\<in>set rest. snd y \<le> snd (rest ! k)"
      by auto
    from assms(3) Suc have "snd (xs ! 0) < snd (xs ! b)" by blast
    with Cons Suc have x: "snd x < snd (rest ! k)" by simp
    have before: "\<forall>j<k. snd (rest ! j) < snd (rest ! k)"
    proof (intro allI impI)
      fix j assume "j < k"
      then have "Suc j < b" using Suc by simp
      with assms(3) have "snd (xs ! Suc j) < snd (xs ! b)" by blast
      then show "snd (rest ! j) < snd (rest ! k)" using Cons Suc by simp
    qed
    have "max_by_score x rest = rest ! k"
      by (rule max_by_score_later [OF k x before top])
    then show ?thesis using Cons Suc by (simp add: best_sector_of_def)
  qed
qed

lemma sector_contexts_distinct: "distinct (map fst sector_contexts)"
  by (simp add: sector_contexts_def)

lemma sector_contexts_names: "\<forall>x\<in>set sector_contexts. fst x \<noteq> []"
  by (simp add: sector_contexts_def)

lemma sector_contexts_lookup:
  assumes "b < length sector_contexts"
  shows "map_of sector_contexts (fst (sector_contexts ! b)) = Some (snd (sector_contexts ! b))"
proof -
  have "(fst (sector_contexts ! b), snd (sector_contexts ! b)) \<in> set sector_contexts"
    using assms by simp
  with sector_contexts_distinct show ?thesis by (rule map_of_is_SomeI)
qed

text \<open>
  C5, as the code has it.  Empty content gives the empty string.  Otherwise the Sector
  Context Filter picks its sector itself: the score of a sector is the number of its
  context keywords that occur as plain substrings of
  \<^verbatim>\<open>(title + ' ' + content).lower()\<close>, and the sector is the first of the table with
  the greatest score (\<open>b\<close> below).  When that score is positive, the sentence splitter
  returns and some sentence contains, in lower case, one of the sector's context keywords
  as a plain substring, the result is these sentences joined with \<^verbatim>\<open>". "\<close>, with a
  period appended unless one ends it; in every other case the content is returned as it
  is.
\<close>

theorem sector_context_filter_own_sector:
  assumes "scores = map (\<lambda>(sector, keywords).
                    context_score (lower (title @ '' '' @ content)) keywords) sector_contexts"
    and "b < length sector_contexts"
    and "\<forall>n\<in>set scores. n \<le> scores ! b"
    and "\<forall>j<b. scores ! j < scores ! b"
  shows "sector_context_filter sent_tokenize content title =
     (if content = [] then []
      else
        (case sent_tokenize content of
           Inl e \<Rightarrow> content
         | Inr sentences \<Rightarrow>
             (let relevant =
                    filter (\<lambda>sentence.
                        list_ex (\<lambda>keyword. sublist keyword (lower sentence))
                          (snd (sector_contexts ! b)))
                      sentences
              in if 0 < scores ! b \<and> relevant \<noteq> []
                 then (if suffix ''.'' (join ''. '' relevant) then join ''. '' relevant
                       else join ''. '' relevant @ ''.'')
                 else content)))"
proof (cases "content = []")
  case True
  then show ?thesis by (simp add: sector_context_filter_def)
next
  case False
  define full_text where "full_text = lower (title @ '' '' @ content)"
  define sc where
    "sc = map (\<lambda>(sector, keywords). (sector, context_score full_text keywords)) sector_contexts"
  have len: "length sc = length sector_contexts" by (simp add: sc_def)
  have snd_sc: "map snd sc = scores"
    by (simp add: sc_def assms(1) full_text_def case_prod_beta)
  have nth_snd: "snd (sc ! i) = scores ! i" if "i < length sector_contexts" for i
  proof -
    from that len have "i < length sc" by simp
    then have "map snd sc ! i = snd (sc ! i)" by (rule nth_map)
    then show ?thesis by (simp add: snd_sc)
  qed
  have nth_fst: "fst (sc ! i) = fst (sector_contexts ! i)" if "i < length sector_contexts" for i
    using that by (simp add: sc_def case_prod_beta)
  have b: "b < length sc" using assms(2) len by simp
  have top: "\<forall>x\<in>set sc. snd x \<le> snd (sc ! b)"
  proof
    fix x assume "x \<in> set sc"
    then have "snd x \<in> set (map snd sc)" by simp
    then have "snd x \<in> set scores" by (simp only: snd_sc)
    with assms(3) have "snd x \<le> scores ! b" by blast
    then show "snd x \<le> snd (sc ! b)" by (simp add: nth_snd [OF assms(2)])
  qed
  have before: "\<forall>j<b. snd (sc ! j) < snd (sc ! b)"
  proof (intro allI impI)
    fix j assume "j < b"
    with assms(2) have jl: "j < length sector_contexts" by simp
    from \<open>j < b\<close> assms(4) have "scores ! j < scores ! b" by blast
    then show "snd (sc ! j) < snd (sc ! b)"
      by (simp add: nth_snd [OF jl] nth_snd [OF assms(2)])
  qed
  have best: "best_sector_of sc = Some (fst (sector_contexts ! b), scores ! b)"
    using best_sector_of_first_max [OF b top before] nth_snd [OF assms(2)] nth_fst [OF assms(2)]
    by (simp add: prod_eq_iff)
  have name: "fst (sector_contexts ! b) \<noteq> []"
    using sector_contexts_names assms(2) by (meson nth_mem)
  note look = sector_contexts_lookup [OF assms(2)]
  show ?thesis
    using False best [unfolded sc_def full_text_def] name look
    by (simp add: sector_context_filter_def Let_def split: sum.splits)
qed

lemma paint_scores:
  "map (\<lambda>(sector, keywords).
       context_score (lower ('''' @ '' '' @ ''Paint dries. The senate met.'')) keywords)
     sector_contexts = [0, 0, 0, 1, 0]"
  by code_simp

lemma paint_title_scores:
  "map (\<lambda>(sector, keywords).
       context_score (lower (''Paint'' @ '' '' @ '''')) keywords)
     sector_contexts = [0, 0, 0, 1, 0]"
  by code_simp

theorem sector_context_filter_own_sector_witness:
  "sector_context_filter (\<lambda>c. Inr [''Paint dries.'', ''The senate met.''])
     ''Paint dries. The senate met.'' '''' = ''Paint dries.'' \<and>
   sector_context_filter (\<lambda>c. Inr [''Paint dries.'']) '''' ''Paint'' = ''''"
proof
  have c: "(''Paint dries. The senate met.'' = '''') = False" by simp
  have b: "3 < length sector_contexts" by (simp add: sector_contexts_def)
  have top: "\<forall>n\<in>set [0, 0, 0, 1, 0::nat]. n \<le> [0, 0, 0, 1, 0] ! 3" by simp
  have before: "\<forall>j<3. [0, 0, 0, 1, 0::nat] ! j < [0, 0, 0, 1, 0] ! 3"
    by (simp add: less_Suc_eq numeral_3_eq_3)
  have r: "filter (\<lambda>sentence.
        list_ex (\<lambda>keyword. sublist keyword (lower sentence)) (snd (sector_contexts ! 3)))
      [''Paint dries.'', ''The senate met.''] = [''Paint dries.'']"
    by code_simp
  have s: "suffix ''.'' ''Paint dries.''" by code_simp
  have n: "0 < [0, 0, 0, 1, 0::nat] ! 3" by simp
  note th = sector_context_filter_own_sector
      [OF paint_scores [symmetric] b top before,
        of "\<lambda>c. Inr [''Paint dries.'', ''The senate met.'']"]
  from th have "sector_context_filter (\<lambda>c. Inr [''Paint dries.'', ''The senate met.''])
       ''Paint dries. The senate met.'' ''''
     = (if 0 < [0, 0, 0, 1, 0::nat] ! 3 \<and> [''Paint dries.''] \<noteq> []
        then (if suffix ''.'' (join ''. '' [''Paint dries.'']) then join ''. '' [''Paint dries.'']
              else join ''. '' [''Paint dries.''] @ ''.'')
        else ''Paint dries. The senate met.'')"
    by (simp only: c if_False sum.case Let_def r)
  with n s show "sector_context_filter (\<lambda>c. Inr [''Paint dries.'', ''The senate met.''])
     ''Paint dries. The senate met.'' '''' = ''Paint dries.''"
    by simp
  note th0 = sector_context_filter_own_sector
      [OF paint_title_scores [symmetric] b top before, of "\<lambda>c. Inr [''Paint dries.'']"]
  from th0 show "sector_context_filter (\<lambda>c. Inr [''Paint dries.'']) '''' ''Paint'' = ''''"
    by (simp only: refl if_True)
qed

text \<open>
  C5, as the specification states it, fails.  For \<open>Paint dries. The senate met.\<close> the
  Sector Scorer assigns \<open>politics-governance\<close> (one match, \<open>senate\<close>), and the only
  sentence with one of that sector's keyword phrases is \<open>The senate met.\<close> (none with
  the filter's own table); the filter returns \<open>Paint dries.\<close>, the sentence that holds
  the context keyword \<open>ai\<close> of another sector.  For \<open>Paint dries. Sun shines.\<close> the
  Sector Scorer assigns \<open>general\<close>, and the filter is not skipped: it returns
  \<open>Paint dries.\<close>
\<close>

lemma categorize_senate:
  "categorize_content [''content'' \<mapsto> Str ''Paint dries. The senate met.'']
   = Inr [''content'' \<mapsto> Str ''Paint dries. The senate met.'',
          ''category'' \<mapsto> Str ''politics-governance'']"
proof -
  have "choose_category
      (sector_scores (lower ''Paint dries. The senate met.'' @ '' '' @ lower ''''))
      = Inr ''politics-governance''"
    by code_simp
  then show ?thesis by (simp add: categorize_content_def)
qed

lemma categorize_sun:
  "categorize_content [''content'' \<mapsto> Str ''Paint dries. Sun shines.'']
   = Inr [''content'' \<mapsto> Str ''Paint dries. Sun shines.'',
          ''category'' \<mapsto> Str ''general'']"
proof -
  have "choose_category
      (sector_scores (lower ''Paint dries. Sun shines.'' @ '' '' @ lower ''''))
      = Inr ''general''"
    by code_simp
  then show ?thesis by (simp add: categorize_content_def)
qed

theorem sector_context_filter_counterexample:
  "categorize_content [''content'' \<mapsto> Str ''Paint dries. The senate met.'']
     = Inr [''content'' \<mapsto> Str ''Paint dries. The senate met.'',
            ''category'' \<mapsto> Str ''politics-governance''] \<and>
   spec_context_filter sectors ''politics-governance'' ''Paint dries. The senate met.''
     [''Paint dries.'', ''The senate met.''] = ''The senate met.'' \<and>
   spec_context_filter sector_contexts ''politics-governance'' ''Paint dries. The senate met.''
     [''Paint dries.'', ''The senate met.''] = '''' \<and>
   sector_context_filter (\<lambda>c. Inr [''Paint dries.'', ''The senate met.''])
     ''Paint dries. The senate met.'' '''' = ''Paint dries.'' \<and>
   categorize_content [''content'' \<mapsto> Str ''Paint dries. Sun shines.'']
     = Inr [''content'' \<mapsto> Str ''Paint dries. Sun shines.'',
            ''category'' \<mapsto> Str ''general''] \<and>
   spec_context_filter sectors ''general'' ''Paint dries. Sun shines.''
     [''Paint dries.'', ''Sun shines.''] = ''Paint dries. Sun shines.'' \<and>
   sector_context_filter (\<lambda>c. Inr [''Paint dries.'', ''Sun shines.''])
     ''Paint dries. Sun shines.'' '''' = ''Paint dries.''"
proof -
  have 1: "spec_context_filter sectors ''politics-governance'' ''Paint dries. The senate met.''
     [''Paint dries.'', ''The senate met.''] = ''The senate met.''"
    by code_simp
  have 2: "spec_context_filter sector_contexts ''politics-governance''
     ''Paint dries. The senate met.'' [''Paint dries.'', ''The senate met.''] = ''''"
    by code_simp
  have 3: "sector_context_filter (\<lambda>c. Inr [''Paint dries.'', ''The senate met.''])
     ''Paint dries. The senate met.'' '''' = ''Paint dries.''"
    by code_simp
  have 4: "spec_context_filter sectors ''general'' ''Paint dries. Sun shines.''
     [''Paint dries.'', ''Sun shines.''] = ''Paint dries. Sun shines.''"
    by code_simp
  have 5: "sector_context_filter (\<lambda>c. Inr [''Paint dries.'', ''Sun shines.''])
     ''Paint dries. Sun shines.'' '''' = ''Paint dries.''"
    by code_simp
  from categorize_senate 1 2 3 categorize_sun 4 5 show ?thesis by (intro conjI)
qed

end
